theory Spec2Isabelle
  imports Main
begin

section \<open>Python values used by the encoder\<close>

text \<open>
  The development follows \<^verbatim>\<open>src/urllib3/multipart/encoder.py\<close>.
  A \<^verbatim>\<open>bytes\<close> object is a list of 8-bit characters; a \<^verbatim>\<open>str\<close> is a list of
  Unicode code points, so that \<^verbatim>\<open>len\<close> of a \<^verbatim>\<open>str\<close> counts code points and
  \<^verbatim>\<open>len\<close> of its encoding counts bytes. Sizes and budgets are Python integers
  (\<open>int\<close>); \<open>- 1\<close> is the source's mark for "no bound". Arguments are of the types
  the annotations of the source give them.
\<close>

type_synonym bytes = "char list"

type_synonym str = "nat list"

text \<open>Exceptions are values; each constructor names the Python exception and its origin.\<close>

datatype error =
    TypeError_bytes_like_required
  | ValueError_unable_to_compute_size
  | ValueError_unpack
  | ValueError_len_negative
  | UnicodeEncodeError
  | StopIteration

text \<open>
  What \<^verbatim>\<open>BytesIO.write\<close> may be handed at run time: the annotations promise
  \<^verbatim>\<open>bytes\<close>, but one attribute of the encoder holds a tuple (see the constructor).
\<close>

datatype pyval = Bytes bytes | Tuple "pyval list"

definition str_of :: "string \<Rightarrow> str" where
  "str_of cs = map of_char cs"

definition CRLF :: bytes where
  "CRLF = [CHR 0x0D, CHR 0x0A]"

subsection \<open>Text encodings (\<^verbatim>\<open>str.encode\<close>)\<close>

text \<open>
  The argument \<^verbatim>\<open>encoding\<close> names a codec; three codecs stand for it here. Encoding
  raises \<^verbatim>\<open>UnicodeEncodeError\<close> on a code point the codec has no bytes for.
\<close>

datatype encoding = Utf8 | Latin1 | Ascii

definition encode_code_point :: "encoding \<Rightarrow> nat \<Rightarrow> error + bytes" where
  "encode_code_point e c =
     (case e of
        Ascii \<Rightarrow> (if c < 0x80 then Inr [char_of c] else Inl UnicodeEncodeError)
      | Latin1 \<Rightarrow> (if c < 0x100 then Inr [char_of c] else Inl UnicodeEncodeError)
      | Utf8 \<Rightarrow>
          (if c < 0x80 then Inr [char_of c]
           else if c < 0x800 then
             Inr [char_of (0xC0 + c div 0x40), char_of (0x80 + c mod 0x40)]
           else if 0xD800 \<le> c \<and> c < 0xE000 then Inl UnicodeEncodeError
           else if c < 0x10000 then
             Inr [char_of (0xE0 + c div 0x1000), char_of (0x80 + (c div 0x40) mod 0x40),
                  char_of (0x80 + c mod 0x40)]
           else if c < 0x110000 then
             Inr [char_of (0xF0 + c div 0x40000), char_of (0x80 + (c div 0x1000) mod 0x40),
                  char_of (0x80 + (c div 0x40) mod 0x40), char_of (0x80 + c mod 0x40)]
           else Inl UnicodeEncodeError))"

fun str_encode :: "encoding \<Rightarrow> str \<Rightarrow> error + bytes" where
  "str_encode e [] = Inr []"
| "str_encode e (c # cs) =
     (case encode_code_point e c of
        Inl err \<Rightarrow> Inl err
      | Inr bs \<Rightarrow> (case str_encode e cs of Inl err \<Rightarrow> Inl err | Inr rest \<Rightarrow> Inr (bs @ rest)))"

datatype anystr = AStr str | ABytes bytes

text \<open>\<^verbatim>\<open>encode_with\<close>: a \<^verbatim>\<open>bytes\<close> object is returned as it is, a \<^verbatim>\<open>str\<close> is encoded.\<close>

fun encode_with :: "anystr \<Rightarrow> encoding \<Rightarrow> error + bytes" where
  "encode_with (ABytes b) e = Inr b"
| "encode_with (AStr s) e = str_encode e s"

section \<open>\<^verbatim>\<open>io.BytesIO\<close> and \<^verbatim>\<open>_CustomBytesIO\<close>\<close>

record bytesio =
  content :: bytes
  pos :: nat

definition BytesIO_init :: "bytes \<Rightarrow> bytesio" where
  "BytesIO_init initial_bytes = \<lparr>content = initial_bytes, pos = 0\<rparr>"

definition BytesIO_tell :: "bytesio \<Rightarrow> nat" where
  "BytesIO_tell b = pos b"

text \<open>
  \<^verbatim>\<open>seek(offset, 0)\<close>: every call in the source passes \<^verbatim>\<open>0\<close> or a value that
  \<^verbatim>\<open>tell()\<close> returned, so the offset is a natural number and the call cannot raise.
\<close>

definition BytesIO_seek_set :: "bytesio \<Rightarrow> nat \<Rightarrow> bytesio" where
  "BytesIO_seek_set b offset = b\<lparr>pos := offset\<rparr>"

text \<open>\<^verbatim>\<open>seek(offset, 2)\<close>: relative to the end; a negative result is clamped to 0.\<close>

definition BytesIO_seek_end :: "bytesio \<Rightarrow> int \<Rightarrow> bytesio" where
  "BytesIO_seek_end b offset =
     b\<lparr>pos := (let p = int (length (content b)) + offset in if p < 0 then 0 else nat p)\<rparr>"

text \<open>
  \<^verbatim>\<open>read(size)\<close>: a negative size reads everything from the position; reading at or
  past the end returns \<^verbatim>\<open>b""\<close> and leaves the position where it is.
\<close>

definition BytesIO_read :: "bytesio \<Rightarrow> int \<Rightarrow> bytes \<times> bytesio" where
  "BytesIO_read b sz =
     (let n = int (length (content b)) - int (pos b);
          k = (if sz < 0 \<or> n < sz then n else sz);
          k = (if k < 0 then 0 else k)
      in (take (nat k) (drop (pos b) (content b)), b\<lparr>pos := pos b + nat k\<rparr>))"

text \<open>
  Writing bytes at the position overwrites what is there and extends the content; a
  position past the end is padded with zero bytes first (an empty write changes nothing).
\<close>

definition BytesIO_write_bytes :: "bytesio \<Rightarrow> bytes \<Rightarrow> bytesio \<times> int" where
  "BytesIO_write_bytes b bs =
     (if bs = [] then (b, 0)
      else
        let padded = content b @ replicate (pos b - length (content b)) (CHR 0x00)
        in (\<lparr>content = take (pos b) padded @ bs @ drop (pos b + length bs) padded,
             pos = pos b + length bs\<rparr>,
            int (length bs)))"

text \<open>\<^verbatim>\<open>write\<close> accepts bytes-like objects only: a tuple raises \<^verbatim>\<open>TypeError\<close>.\<close>

definition BytesIO_write :: "bytesio \<Rightarrow> pyval \<Rightarrow> error + bytesio \<times> int" where
  "BytesIO_write b v =
     (case v of
        Bytes bs \<Rightarrow> Inr (BytesIO_write_bytes b bs)
      | Tuple vs \<Rightarrow> Inl TypeError_bytes_like_required)"

text \<open>\<^verbatim>\<open>truncate()\<close> cuts the content at the position.\<close>

definition BytesIO_truncate :: "bytesio \<Rightarrow> bytesio" where
  "BytesIO_truncate b = b\<lparr>content := take (pos b) (content b)\<rparr>"

text \<open>
  \<^verbatim>\<open>_CustomBytesIO.__init__\<close>: no argument means \<^verbatim>\<open>b""\<close>; text is encoded.
  The callers in this file pass nothing, \<^verbatim>\<open>bytes\<close> or \<^verbatim>\<open>str\<close>, never a stream.
\<close>

definition CustomBytesIO_init :: "anystr option \<Rightarrow> encoding \<Rightarrow> error + bytesio" where
  "CustomBytesIO_init buf e =
     (let buf' = (case buf of None \<Rightarrow> ABytes [] | Some t \<Rightarrow> t)
      in case encode_with buf' e of
           Inl err \<Rightarrow> Inl err
         | Inr bufferbytes \<Rightarrow> Inr (BytesIO_init bufferbytes))"

text \<open>\<^verbatim>\<open>_get_end\<close> moves to the end, reads the position and moves back.\<close>

definition CustomBytesIO_get_end :: "bytesio \<Rightarrow> nat \<times> bytesio" where
  "CustomBytesIO_get_end b =
     (let current_pos = BytesIO_tell b;
          b1 = BytesIO_seek_end b 0;
          length' = BytesIO_tell b1;
          b2 = BytesIO_seek_set b1 current_pos
      in (length', b2))"

text \<open>The \<^verbatim>\<open>len\<close> property: bytes from the position to the end.\<close>

definition CustomBytesIO_len :: "bytesio \<Rightarrow> int" where
  "CustomBytesIO_len b =
     (let (length', b') = CustomBytesIO_get_end b in int length' - int (BytesIO_tell b'))"

text \<open>
  \<^verbatim>\<open>append\<close>, with the context manager \<^verbatim>\<open>reset\<close> written out: remember the
  position, move to the end, write, move back. When the write raises, the exception
  leaves the function there.
\<close>

definition CustomBytesIO_append :: "bytesio \<Rightarrow> pyval \<Rightarrow> error + bytesio \<times> int" where
  "CustomBytesIO_append b v =
     (let original_position = BytesIO_tell b;
          b1 = BytesIO_seek_end b 0
      in case BytesIO_write b1 v of
           Inl err \<Rightarrow> Inl err
         | Inr (b2, written) \<Rightarrow> Inr (BytesIO_seek_set b2 original_position, written))"

text \<open>
  \<^verbatim>\<open>smart_truncate\<close>: when at least as much has been read as is left, the unread
  bytes are moved to the start. \<^verbatim>\<open>total_len(self)\<close> is the property \<^verbatim>\<open>len\<close>,
  since a \<^verbatim>\<open>_CustomBytesIO\<close> has no \<^verbatim>\<open>__len__\<close>.
\<close>

definition CustomBytesIO_smart_truncate :: "bytesio \<Rightarrow> bytesio" where
  "CustomBytesIO_smart_truncate b =
     (let to_be_read = CustomBytesIO_len b;
          already_read = int (fst (CustomBytesIO_get_end b)) - to_be_read
      in if to_be_read \<le> already_read then
           let (old_bytes, b1) = BytesIO_read b (- 1);
               b2 = BytesIO_seek_set b1 0;
               b3 = BytesIO_truncate b2;
               (b4, n) = BytesIO_write_bytes b3 old_bytes
           in BytesIO_seek_set b4 0
         else b)"

section \<open>Sizes of duck-typed objects: \<^verbatim>\<open>total_len\<close>\<close>

text \<open>
  \<^verbatim>\<open>total_len\<close> probes its argument for four attributes, in this order:
  \<^verbatim>\<open>__len__\<close>, \<^verbatim>\<open>len\<close>, \<^verbatim>\<open>fileno\<close> and \<^verbatim>\<open>getvalue\<close>. An object is
  presented to it as the answers to these probes: \<open>None\<close> where the attribute is
  missing, the value it yields otherwise. \<^verbatim>\<open>fileno()\<close> either raises
  \<^verbatim>\<open>io.UnsupportedOperation\<close> or returns a descriptor, of which only the size that
  \<^verbatim>\<open>os.fstat\<close> reports matters.
\<close>

datatype fileno_result = UnsupportedOperation | Descriptor nat

record probes =
  has_dunder_len :: "nat option"
  has_len :: "int option"
  has_fileno :: "fileno_result option"
  has_getvalue :: "bytes option"

definition total_len :: "probes \<Rightarrow> error + int" where
  "total_len ob =
     (case has_dunder_len ob of
        Some n \<Rightarrow> Inr (int n)
      | None \<Rightarrow>
          (case has_len ob of
             Some n \<Rightarrow> Inr n
           | None \<Rightarrow>
               (case has_fileno ob of
                  Some (Descriptor st_size) \<Rightarrow> Inr (int st_size)
                | _ \<Rightarrow>
                    (case has_getvalue ob of
                       Some v \<Rightarrow> Inr (int (length v))
                     | None \<Rightarrow> Inl ValueError_unable_to_compute_size))))"

subsection \<open>Open binary files and \<^verbatim>\<open>FileWrapper\<close>\<close>

text \<open>
  A field's data is typed \<^verbatim>\<open>Union[bytes, str, typing.BinaryIO]\<close>. A binary stream
  other than \<^verbatim>\<open>io.BytesIO\<close> is modelled by the bytes it delivers, its position, and
  what it answers to the probes of \<^verbatim>\<open>total_len\<close> when it is wrapped. Every
  \<^verbatim>\<open>BinaryIO\<close> has the attribute \<^verbatim>\<open>fileno\<close>. Its \<^verbatim>\<open>read\<close> behaves like the
  one of \<^verbatim>\<open>BytesIO\<close>, and \<^verbatim>\<open>tell\<close> returns the position.
\<close>

record fileobj =
  file_content :: bytes
  file_pos :: nat
  file_dunder_len :: "nat option"
  file_len :: "int option"
  file_fileno :: fileno_result
  file_getvalue :: "bytes option"

definition probes_of_file :: "fileobj \<Rightarrow> probes" where
  "probes_of_file f =
     \<lparr>has_dunder_len = file_dunder_len f, has_len = file_len f,
      has_fileno = Some (file_fileno f), has_getvalue = file_getvalue f\<rparr>"

definition file_read :: "fileobj \<Rightarrow> int \<Rightarrow> bytes \<times> fileobj" where
  "file_read f n =
     (let (bs, b) = BytesIO_read \<lparr>content = file_content f, pos = file_pos f\<rparr> n
      in (bs, f\<lparr>file_pos := pos b\<rparr>))"

record filewrapper =
  fd :: fileobj
  wrapper_total_len :: int

definition FileWrapper_init :: "fileobj \<Rightarrow> error + filewrapper" where
  "FileWrapper_init file_object =
     (case total_len (probes_of_file file_object) of
        Inl err \<Rightarrow> Inl err
      | Inr n \<Rightarrow> Inr \<lparr>fd = file_object, wrapper_total_len = n\<rparr>)"

definition FileWrapper_len :: "filewrapper \<Rightarrow> int" where
  "FileWrapper_len w = wrapper_total_len w - int (file_pos (fd w))"

definition FileWrapper_read :: "filewrapper \<Rightarrow> int \<Rightarrow> bytes \<times> filewrapper" where
  "FileWrapper_read w n = (let (bs, f) = file_read (fd w) n in (bs, w\<lparr>fd := f\<rparr>))"

subsection \<open>Bodies of parts\<close>

text \<open>
  \<^verbatim>\<open>Part.__init__\<close> takes a body of type
  \<^verbatim>\<open>Union[BinaryIO, FileWrapper, _CustomBytesIO]\<close>. \<^verbatim>\<open>coerce_data\<close> gives the
  last two; a part made by calling \<^verbatim>\<open>Part\<close> itself may hold a binary stream as
  it is.
\<close>

datatype body = CustomBytesIO bytesio | FileWrapper filewrapper | BinaryIO fileobj

text \<open>
  A \<^verbatim>\<open>_CustomBytesIO\<close> has no \<^verbatim>\<open>__len__\<close> but the property \<^verbatim>\<open>len\<close>; a
  \<^verbatim>\<open>FileWrapper\<close> has the property \<^verbatim>\<open>len\<close> and nothing else. Both shrink as the
  body is read. A binary stream answers for itself, and what it answers does not change
  when it is read.
\<close>

definition probes_of_body :: "body \<Rightarrow> probes" where
  "probes_of_body bdy =
     (case bdy of
        CustomBytesIO b \<Rightarrow>
          \<lparr>has_dunder_len = None, has_len = Some (CustomBytesIO_len b),
           has_fileno = Some UnsupportedOperation, has_getvalue = Some (content b)\<rparr>
      | FileWrapper w \<Rightarrow>
          \<lparr>has_dunder_len = None, has_len = Some (FileWrapper_len w),
           has_fileno = None, has_getvalue = None\<rparr>
      | BinaryIO f \<Rightarrow> probes_of_file f)"

definition body_read :: "body \<Rightarrow> int \<Rightarrow> bytes \<times> body" where
  "body_read bdy n =
     (case bdy of
        CustomBytesIO b \<Rightarrow> (let (bs, b') = BytesIO_read b n in (bs, CustomBytesIO b'))
      | FileWrapper w \<Rightarrow> (let (bs, w') = FileWrapper_read w n in (bs, FileWrapper w'))
      | BinaryIO f \<Rightarrow> (let (bs, f') = file_read f n in (bs, BinaryIO f')))"

datatype field_data =
    DataBytes bytes
  | DataStr str
  | DataBytesIO bytesio
  | DataCustomBytesIO bytesio
  | DataFile fileobj

text \<open>
  \<^verbatim>\<open>coerce_data\<close>: a \<^verbatim>\<open>_CustomBytesIO\<close> is returned as it is; the value of a
  \<^verbatim>\<open>BytesIO\<close>, and \<^verbatim>\<open>bytes\<close> or \<^verbatim>\<open>str\<close>, go into a new \<^verbatim>\<open>_CustomBytesIO\<close>;
  a stream with \<^verbatim>\<open>fileno\<close> is wrapped.
\<close>

fun coerce_data :: "field_data \<Rightarrow> encoding \<Rightarrow> error + body" where
  "coerce_data (DataCustomBytesIO b) e = Inr (CustomBytesIO b)"
| "coerce_data (DataBytesIO b) e =
     (case CustomBytesIO_init (Some (ABytes (content b))) e of
        Inl err \<Rightarrow> Inl err | Inr b' \<Rightarrow> Inr (CustomBytesIO b'))"
| "coerce_data (DataBytes bs) e =
     (case CustomBytesIO_init (Some (ABytes bs)) e of
        Inl err \<Rightarrow> Inl err | Inr b' \<Rightarrow> Inr (CustomBytesIO b'))"
| "coerce_data (DataStr s) e =
     (case CustomBytesIO_init (Some (AStr s)) e of
        Inl err \<Rightarrow> Inl err | Inr b' \<Rightarrow> Inr (CustomBytesIO b'))"
| "coerce_data (DataFile f) e =
     (case FileWrapper_init f of Inl err \<Rightarrow> Inl err | Inr w \<Rightarrow> Inr (FileWrapper w))"

section \<open>\<^verbatim>\<open>Part\<close>\<close>

record part =
  headers :: bytes
  body :: body
  headers_unread :: bool
  len :: int

definition probes_of_part :: "part \<Rightarrow> probes" where
  "probes_of_part p =
     \<lparr>has_dunder_len = None, has_len = Some (len p), has_fileno = None, has_getvalue = None\<rparr>"

definition Part_init :: "bytes \<Rightarrow> body \<Rightarrow> error + part" where
  "Part_init hdrs bdy =
     (case total_len (probes_of_body bdy) of
        Inl err \<Rightarrow> Inl err
      | Inr n \<Rightarrow>
          Inr \<lparr>headers = hdrs, body = bdy, headers_unread = True,
               len = int (length hdrs) + n\<rparr>)"

definition Part_bytes_left_to_write :: "part \<Rightarrow> error + bool" where
  "Part_bytes_left_to_write p =
     (let to_read = (if headers_unread p then 0 + int (length (headers p)) else 0)
      in case total_len (probes_of_body (body p)) of
           Inl err \<Rightarrow> Inl err
         | Inr n \<Rightarrow> Inr (0 < to_read + n))"

text \<open>
  The \<^verbatim>\<open>while\<close> loop of \<^verbatim>\<open>write_to\<close>. Nothing in the source bounds the number of
  rounds, so the loop is a partial function: \<open>None\<close> stands for a loop that never ends.
\<close>

partial_function (option) Part_write_to_loop ::
  "body \<Rightarrow> bytesio \<Rightarrow> int \<Rightarrow> int \<Rightarrow> (error + body \<times> bytesio \<times> int) option"
where
  "Part_write_to_loop bdy buffer sz written =
     (case total_len (probes_of_body bdy) of
        Inl err \<Rightarrow> Some (Inl err)
      | Inr n \<Rightarrow>
          if 0 < n \<and> (sz = - 1 \<or> written < sz) then
            (let amount_to_read = (if sz \<noteq> - 1 then sz - written else sz) in
             case body_read bdy amount_to_read of
               (chunk, bdy') \<Rightarrow>
                 (case CustomBytesIO_append buffer (Bytes chunk) of
                    Inl err \<Rightarrow> Some (Inl err)
                  | Inr (buffer', n') \<Rightarrow> Part_write_to_loop bdy' buffer' sz (written + n')))
          else Some (Inr (bdy, buffer, written)))"

declare Part_write_to_loop.simps [code]

definition Part_write_to ::
  "part \<Rightarrow> bytesio \<Rightarrow> int \<Rightarrow> (error + part \<times> bytesio \<times> int) option"
where
  "Part_write_to p buffer sz =
     (case (if headers_unread p then
              (case CustomBytesIO_append buffer (Bytes (headers p)) of
                 Inl err \<Rightarrow> Inl err
               | Inr (buffer', n) \<Rightarrow> Inr (p\<lparr>headers_unread := False\<rparr>, buffer', 0 + n))
            else Inr (p, buffer, 0)) of
        Inl err \<Rightarrow> Some (Inl err)
      | Inr (p1, buffer1, written) \<Rightarrow>
          (case Part_write_to_loop (body p1) buffer1 sz written of
             None \<Rightarrow> None
           | Some (Inl err) \<Rightarrow> Some (Inl err)
           | Some (Inr (bdy', buffer2, written')) \<Rightarrow>
               Some (Inr (p1\<lparr>body := bdy'\<rparr>, buffer2, written'))))"

section \<open>Fields\<close>

text \<open>
  The user's fields are a mapping (iterated in insertion order, so an association list) or
  a sequence of pairs. A value is a bare datum or a list or tuple: of two elements (file
  name, data), of three (and a content type) or of four (and extra headers). A tuple of
  any other length (\<open>TupleOfLength n\<close>, for \<open>n\<close> other than 2, 3 and 4) reaches the
  four-fold unpacking and makes it raise. A content type given as \<^verbatim>\<open>bytes\<close> is
  decoded by the source; it is kept here as the \<^verbatim>\<open>str\<close> it decodes to.
\<close>

datatype field_value =
    Bare field_data
  | Tuple2 str field_data
  | Tuple3 str field_data str
  | Tuple4 str field_data str "(str \<times> str) list"
  | TupleOfLength nat

datatype fields =
    Mapping "(str \<times> field_value) list"
  | Sequence "(str \<times> field_value) list"

text \<open>\<^verbatim>\<open>to_list\<close>: the items of a mapping, or the sequence itself.\<close>

fun to_list :: "fields \<Rightarrow> (str \<times> field_value) list" where
  "to_list (Mapping items) = items"
| "to_list (Sequence items) = items"

text \<open>
  \<^verbatim>\<open>urllib3.fields.RequestField\<close> is not part of this file. A field is kept as the
  arguments it was made from; the renderer of its header block is a parameter
  \<open>render\<close> of the functions below.
\<close>

record request_field =
  name :: str
  data :: field_data
  filename :: "str option"
  field_headers :: "(str \<times> str) list option"
  content_type :: "str option"

text \<open>One round of the loop of \<^verbatim>\<open>_iter_fields\<close>.\<close>

fun iter_field :: "str \<times> field_value \<Rightarrow> error + request_field" where
  "iter_field (k, Bare file_pointer) =
     Inr \<lparr>name = k, data = file_pointer, filename = None, field_headers = None,
          content_type = None\<rparr>"
| "iter_field (k, Tuple2 file_name file_pointer) =
     Inr \<lparr>name = k, data = file_pointer, filename = Some file_name, field_headers = None,
          content_type = None\<rparr>"
| "iter_field (k, Tuple3 file_name file_pointer file_type) =
     Inr \<lparr>name = k, data = file_pointer, filename = Some file_name, field_headers = None,
          content_type = Some file_type\<rparr>"
| "iter_field (k, Tuple4 file_name file_pointer file_type file_headers) =
     Inr \<lparr>name = k, data = file_pointer, filename = Some file_name,
          field_headers = Some file_headers, content_type = Some file_type\<rparr>"
| "iter_field (k, TupleOfLength n) = Inl ValueError_unpack"

definition Part_from_field ::
  "(request_field \<Rightarrow> str) \<Rightarrow> request_field \<Rightarrow> encoding \<Rightarrow> error + part"
where
  "Part_from_field render field e =
     (case encode_with (AStr (render field)) e of
        Inl err \<Rightarrow> Inl err
      | Inr hdrs \<Rightarrow>
          (case coerce_data (data field) e of
             Inl err \<Rightarrow> Inl err
           | Inr bdy \<Rightarrow> Part_init hdrs bdy))"

text \<open>
  \<^verbatim>\<open>_prepare_parts\<close>: the list comprehension draws one field from the generator
  \<^verbatim>\<open>_iter_fields\<close>, makes its part, and goes on to the next field.
\<close>

fun prepare_parts ::
  "(request_field \<Rightarrow> str) \<Rightarrow> encoding \<Rightarrow> (str \<times> field_value) list \<Rightarrow> error + part list"
where
  "prepare_parts render e [] = Inr []"
| "prepare_parts render e (kv # kvs) =
     (case iter_field kv of
        Inl err \<Rightarrow> Inl err
      | Inr field \<Rightarrow>
          (case Part_from_field render field e of
             Inl err \<Rightarrow> Inl err
           | Inr p \<Rightarrow>
               (case prepare_parts render e kvs of
                  Inl err \<Rightarrow> Inl err
                | Inr ps \<Rightarrow> Inr (p # ps))))"

section \<open>\<^verbatim>\<open>MultipartEncoder\<close>\<close>

text \<open>
  The parts are objects shared by the list \<^verbatim>\<open>_parts\<close>, its iterator
  \<^verbatim>\<open>_iter_parts\<close> and \<^verbatim>\<open>_current_part\<close>. The list \<open>parts\<close> is the store of these
  objects; the iterator is the index of the part it yields next and the current part is
  an index, or \<open>None\<close>.
\<close>

record multipart_encoder =
  boundary_value :: str
  boundary :: str
  enc :: encoding
  encoded_boundary :: pyval
  user_fields :: fields
  iter_read_size :: int
  finished :: bool
  current_part :: "nat option"
  len_cache :: "int option"
  buffer :: bytesio
  parts :: "part list"
  iter_parts :: nat

definition MultipartEncoder_write ::
  "multipart_encoder \<Rightarrow> pyval \<Rightarrow> error + multipart_encoder \<times> int"
where
  "MultipartEncoder_write s bytes_to_write =
     (case CustomBytesIO_append (buffer s) bytes_to_write of
        Inl err \<Rightarrow> Inl err
      | Inr (b, n) \<Rightarrow> Inr (s\<lparr>buffer := b\<rparr>, n))"

definition MultipartEncoder_write_boundary ::
  "multipart_encoder \<Rightarrow> error + multipart_encoder \<times> int"
where
  "MultipartEncoder_write_boundary s = MultipartEncoder_write s (encoded_boundary s)"

text \<open>
  \<^verbatim>\<open>_write_closing_boundary\<close>: inside \<^verbatim>\<open>reset\<close>, step two bytes back from the end
  and write \<^verbatim>\<open>--\r\n\<close> there. It returns 2.
\<close>

definition MultipartEncoder_write_closing_boundary ::
  "multipart_encoder \<Rightarrow> multipart_encoder \<times> int"
where
  "MultipartEncoder_write_closing_boundary s =
     (let original_position = BytesIO_tell (buffer s);
          b1 = BytesIO_seek_end (buffer s) 0;
          b2 = BytesIO_seek_end b1 (- 2);
          (b3, n) = BytesIO_write_bytes b2 (''--'' @ CRLF);
          b4 = BytesIO_seek_set b3 original_position
      in (s\<lparr>buffer := b4\<rparr>, 2))"

text \<open>
  The constructor, in two steps. The first is every statement before the last one:
  \<^verbatim>\<open>boundary or filepost.choose_boundary()\<close> takes the generator's token
  \<open>chosen\<close> when no boundary, or an empty one, is given; the attributes are assigned and
  the parts prepared. The pre-encoded boundary is assigned as
  \<^verbatim>\<open>self._encoded_boundary: bytes = (encode_with(self._boundary + "\r\n", self._enc),)\<close>:
  the comma before the closing parenthesis makes the value a tuple of one element.
\<close>

definition MultipartEncoder_init_attributes ::
  "(request_field \<Rightarrow> str) \<Rightarrow> str \<Rightarrow> fields \<Rightarrow> str option \<Rightarrow> encoding \<Rightarrow> int
     \<Rightarrow> error + multipart_encoder"
where
  "MultipartEncoder_init_attributes render chosen flds bnd e default_iter_size =
     (let bv = (case bnd of None \<Rightarrow> chosen | Some b \<Rightarrow> if b = [] then chosen else b);
          bd = str_of ''--'' @ bv
      in case encode_with (AStr (bd @ [0x0D, 0x0A])) e of
           Inl err \<Rightarrow> Inl err
         | Inr encoded \<Rightarrow>
             (case CustomBytesIO_init None e of
                Inl err \<Rightarrow> Inl err
              | Inr buf \<Rightarrow>
                  (case prepare_parts render e (to_list flds) of
                     Inl err \<Rightarrow> Inl err
                   | Inr ps \<Rightarrow>
                       Inr \<lparr>boundary_value = bv, boundary = bd, enc = e,
                            encoded_boundary = Tuple [Bytes encoded], user_fields = flds,
                            iter_read_size = default_iter_size, finished = False,
                            current_part = None, len_cache = None, buffer = buf,
                            parts = ps, iter_parts = 0\<rparr>)))"

text \<open>The second step is the last statement, \<^verbatim>\<open>self._write_boundary()\<close>.\<close>

definition MultipartEncoder_init ::
  "(request_field \<Rightarrow> str) \<Rightarrow> str \<Rightarrow> fields \<Rightarrow> str option \<Rightarrow> encoding \<Rightarrow> int
     \<Rightarrow> error + multipart_encoder"
where
  "MultipartEncoder_init render chosen flds bnd e default_iter_size =
     (case MultipartEncoder_init_attributes render chosen flds bnd e default_iter_size of
        Inl err \<Rightarrow> Inl err
      | Inr s \<Rightarrow>
          (case MultipartEncoder_write_boundary s of
             Inl err \<Rightarrow> Inl err
           | Inr (s', n) \<Rightarrow> Inr s'))"

subsection \<open>Length\<close>

fun sum_total_len :: "part list \<Rightarrow> error + int" where
  "sum_total_len [] = Inr 0"
| "sum_total_len (p # ps) =
     (case total_len (probes_of_part p) of
        Inl err \<Rightarrow> Inl err
      | Inr n \<Rightarrow> (case sum_total_len ps of Inl err \<Rightarrow> Inl err | Inr m \<Rightarrow> Inr (n + m)))"

definition MultipartEncoder_calculate_length ::
  "multipart_encoder \<Rightarrow> error + int \<times> multipart_encoder"
where
  "MultipartEncoder_calculate_length s =
     (let boundarycrnl_len = int (length (boundary s)) + int (length [0x0D, 0x0A, 0x0D, 0x0A :: nat])
      in case sum_total_len (parts s) of
           Inl err \<Rightarrow> Inl err
         | Inr parts_len \<Rightarrow>
             (let l = parts_len + boundarycrnl_len * (int (length (parts s)) + 1)
              in Inr (l, s\<lparr>len_cache := Some l\<rparr>)))"

text \<open>
  \<^verbatim>\<open>__len__\<close> is \<^verbatim>\<open>self._len or self._calculate_length()\<close>: a cached length that is
  \<^verbatim>\<open>None\<close> or 0 is computed again.
\<close>

definition MultipartEncoder_dunder_len ::
  "multipart_encoder \<Rightarrow> error + int \<times> multipart_encoder"
where
  "MultipartEncoder_dunder_len s =
     (case len_cache s of
        None \<Rightarrow> MultipartEncoder_calculate_length s
      | Some l \<Rightarrow> if l \<noteq> 0 then Inr (l, s) else MultipartEncoder_calculate_length s)"

fun decimal :: "nat \<Rightarrow> str" where
  "decimal n = (if n < 10 then [48 + n] else decimal (n div 10) @ [48 + n mod 10])"

declare decimal.simps [simp del]

text \<open>
  \<^verbatim>\<open>content_length\<close> is \<^verbatim>\<open>f"{len(self)}"\<close>; the built-in \<^verbatim>\<open>len\<close> refuses a
  negative result of \<^verbatim>\<open>__len__\<close>.
\<close>

definition MultipartEncoder_content_length ::
  "multipart_encoder \<Rightarrow> error + str \<times> multipart_encoder"
where
  "MultipartEncoder_content_length s =
     (case MultipartEncoder_dunder_len s of
        Inl err \<Rightarrow> Inl err
      | Inr (l, s') \<Rightarrow> if l < 0 then Inl ValueError_len_negative else Inr (decimal (nat l), s'))"

definition MultipartEncoder_content_type :: "multipart_encoder \<Rightarrow> str" where
  "MultipartEncoder_content_type s = str_of ''multipart/form-data; boundary='' @ boundary_value s"

subsection \<open>Loading the buffer\<close>

definition MultipartEncoder_calculate_load_amount :: "multipart_encoder \<Rightarrow> int \<Rightarrow> error + int" where
  "MultipartEncoder_calculate_load_amount s read_size =
     (case total_len (probes_of_body (CustomBytesIO (buffer s))) of
        Inl err \<Rightarrow> Inl err
      | Inr n \<Rightarrow> (let amount = read_size - n in Inr (if 0 < amount then amount else 0)))"

text \<open>
  \<^verbatim>\<open>_next_part\<close>: the next part of the iterator becomes the current part; when the
  iterator is exhausted the result is \<^verbatim>\<open>None\<close> and the current part stays.
\<close>

definition MultipartEncoder_next_part :: "multipart_encoder \<Rightarrow> nat option \<times> multipart_encoder" where
  "MultipartEncoder_next_part s =
     (if iter_parts s < length (parts s) then
        (Some (iter_parts s),
         s\<lparr>current_part := Some (iter_parts s), iter_parts := Suc (iter_parts s)\<rparr>)
      else (None, s))"

text \<open>
  The first statement of the loop body of \<^verbatim>\<open>_load\<close>: a part with nothing left to
  write is closed by \<^verbatim>\<open>\r\n\<close> and the boundary, and the next part is taken. The
  result is the encoder, the local variable \<^verbatim>\<open>part\<close> and \<^verbatim>\<open>written\<close>. A
  \<^verbatim>\<open>Part\<close> object is always true, so \<^verbatim>\<open>if part\<close> asks whether it is not
  \<^verbatim>\<open>None\<close>.
\<close>

definition MultipartEncoder_load_close_part ::
  "multipart_encoder \<Rightarrow> nat option \<Rightarrow> error + multipart_encoder \<times> nat option \<times> int"
where
  "MultipartEncoder_load_close_part s part =
     (case part of
        None \<Rightarrow> Inr (s, None, 0)
      | Some i \<Rightarrow>
          (case Part_bytes_left_to_write (parts s ! i) of
             Inl err \<Rightarrow> Inl err
           | Inr left \<Rightarrow>
               if \<not> left then
                 (case MultipartEncoder_write s (Bytes CRLF) of
                    Inl err \<Rightarrow> Inl err
                  | Inr (s1, n1) \<Rightarrow>
                      (case MultipartEncoder_write_boundary s1 of
                         Inl err \<Rightarrow> Inl err
                       | Inr (s2, n2) \<Rightarrow>
                           (case MultipartEncoder_next_part s2 of
                              (part', s3) \<Rightarrow> Inr (s3, part', 0 + n1 + n2))))
               else Inr (s, part, 0)))"

partial_function (option) MultipartEncoder_load_loop ::
  "multipart_encoder \<Rightarrow> nat option \<Rightarrow> int \<Rightarrow> (error + multipart_encoder) option"
where
  "MultipartEncoder_load_loop s part amount =
     (if amount = - 1 \<or> 0 < amount then
        (case MultipartEncoder_load_close_part s part of
           Inl err \<Rightarrow> Some (Inl err)
         | Inr (s1, part1, written) \<Rightarrow>
             (case part1 of
                None \<Rightarrow>
                  (case MultipartEncoder_write_closing_boundary s1 of
                     (s2, n) \<Rightarrow> Some (Inr (s2\<lparr>finished := True\<rparr>)))
              | Some i \<Rightarrow>
                  (case Part_write_to (parts s1 ! i) (buffer s1) amount of
                     None \<Rightarrow> None
                   | Some (Inl err) \<Rightarrow> Some (Inl err)
                   | Some (Inr (p, b, n)) \<Rightarrow>
                       MultipartEncoder_load_loop
                         (s1\<lparr>parts := (parts s1)[i := p], buffer := b\<rparr>) (Some i)
                         (if amount \<noteq> - 1 then amount - (written + n) else amount))))
      else Some (Inr s))"

declare MultipartEncoder_load_loop.simps [code]

definition MultipartEncoder_load ::
  "multipart_encoder \<Rightarrow> int \<Rightarrow> (error + multipart_encoder) option"
where
  "MultipartEncoder_load s amount =
     (let s1 = s\<lparr>buffer := CustomBytesIO_smart_truncate (buffer s)\<rparr>
      in case (case current_part s1 of
                 Some i \<Rightarrow> (Some i, s1)
               | None \<Rightarrow> MultipartEncoder_next_part s1) of
           (part, s2) \<Rightarrow> MultipartEncoder_load_loop s2 part amount)"

subsection \<open>Reading and iterating\<close>

definition MultipartEncoder_read ::
  "multipart_encoder \<Rightarrow> int \<Rightarrow> (error + bytes \<times> multipart_encoder) option"
where
  "MultipartEncoder_read s sz =
     (if finished s then
        (case BytesIO_read (buffer s) sz of (bs, b) \<Rightarrow> Some (Inr (bs, s\<lparr>buffer := b\<rparr>)))
      else
        (case (if sz \<noteq> - 1 then MultipartEncoder_calculate_load_amount s sz else Inr sz) of
           Inl err \<Rightarrow> Some (Inl err)
         | Inr bytes_to_load \<Rightarrow>
             (case MultipartEncoder_load s bytes_to_load of
                None \<Rightarrow> None
              | Some (Inl err) \<Rightarrow> Some (Inl err)
              | Some (Inr s') \<Rightarrow>
                  (case BytesIO_read (buffer s') sz of
                     (bs, b) \<Rightarrow> Some (Inr (bs, s'\<lparr>buffer := b\<rparr>))))))"

definition MultipartEncoder_next ::
  "multipart_encoder \<Rightarrow> (error + bytes \<times> multipart_encoder) option"
where
  "MultipartEncoder_next s =
     (if finished s then Some (Inl StopIteration)
      else MultipartEncoder_read s (iter_read_size s))"

text \<open>
  The generator \<^verbatim>\<open>__iter__\<close>, run until it returns: the result is the list of the
  chunks it yields, in order.
\<close>

partial_function (option) MultipartEncoder_iter ::
  "multipart_encoder \<Rightarrow> bytes list \<Rightarrow> (error + bytes list \<times> multipart_encoder) option"
where
  "MultipartEncoder_iter s yielded =
     (if \<not> finished s then
        (case MultipartEncoder_read s (iter_read_size s) of
           None \<Rightarrow> None
         | Some (Inl err) \<Rightarrow> Some (Inl err)
         | Some (Inr (chunk, s')) \<Rightarrow> MultipartEncoder_iter s' (yielded @ [chunk]))
      else Some (Inr (yielded, s)))"

declare MultipartEncoder_iter.simps [code]

section \<open>Collaborators outside this file\<close>

text \<open>
  Modelled from the spec: \<^verbatim>\<open>RequestField.render_headers\<close> of \<^verbatim>\<open>urllib3.fields\<close>
  is not among the sources. The spec describes the renderer as producing the header block
  of one part from the name, the optional file name, the optional content type and the
  optional extra headers: a \<^verbatim>\<open>Content-Disposition\<close> line with the quoted field name,
  a \<^verbatim>\<open>Content-Type\<close> line, the custom headers, each line ended by CRLF, and a blank
  line at the end. It serves as the renderer wherever a concrete one is needed.
\<close>

definition render_headers :: "request_field \<Rightarrow> str" where
  "render_headers f =
     str_of ''Content-Disposition: form-data; name='' @ [0x22] @ name f @ [0x22]
     @ (case filename f of
          None \<Rightarrow> []
        | Some fn \<Rightarrow> str_of ''; filename='' @ [0x22] @ fn @ [0x22])
     @ [0x0D, 0x0A]
     @ (case content_type f of
          None \<Rightarrow> []
        | Some ct \<Rightarrow> str_of ''Content-Type: '' @ ct @ [0x0D, 0x0A])
     @ concat (map (\<lambda>(k, v). k @ str_of '': '' @ v @ [0x0D, 0x0A])
                 (case field_headers f of None \<Rightarrow> [] | Some hs \<Rightarrow> hs))
     @ [0x0D, 0x0A]"

section \<open>Notions used in the statements\<close>

text \<open>The bytes of a buffer that no read has returned yet: from the position to the end.\<close>

definition unread :: "bytesio \<Rightarrow> bytes" where
  "unread b = drop (pos b) (content b)"

text \<open>The bytes a body holds, its position, and the bytes still to be read from it.\<close>

definition body_content :: "body \<Rightarrow> bytes" where
  "body_content bdy =
     (case bdy of
        CustomBytesIO b \<Rightarrow> content b
      | FileWrapper w \<Rightarrow> file_content (fd w)
      | BinaryIO f \<Rightarrow> file_content f)"

definition body_pos :: "body \<Rightarrow> nat" where
  "body_pos bdy =
     (case bdy of
        CustomBytesIO b \<Rightarrow> pos b
      | FileWrapper w \<Rightarrow> file_pos (fd w)
      | BinaryIO f \<Rightarrow> file_pos f)"

definition body_unread :: "body \<Rightarrow> bytes" where
  "body_unread bdy = drop (body_pos bdy) (body_content bdy)"

text \<open>The body after \<open>k\<close> more bytes have been read from it.\<close>

definition body_advance :: "body \<Rightarrow> nat \<Rightarrow> body" where
  "body_advance bdy k =
     (case bdy of
        CustomBytesIO b \<Rightarrow> CustomBytesIO (b\<lparr>pos := pos b + k\<rparr>)
      | FileWrapper w \<Rightarrow> FileWrapper (w\<lparr>fd := (fd w)\<lparr>file_pos := file_pos (fd w) + k\<rparr>\<rparr>)
      | BinaryIO f \<Rightarrow> BinaryIO (f\<lparr>file_pos := file_pos f + k\<rparr>))"

text \<open>
  A body is truthful when the size \<^verbatim>\<open>total_len\<close> finds for it is the number of bytes
  it has still to deliver, now and after every further read. An in-memory body measures
  itself and is always truthful. A wrapped stream is truthful when the size it reported
  at wrapping time is the number of bytes it holds, as \<^verbatim>\<open>os.fstat\<close> reports for a
  regular file that nobody changes. The size of a bare stream does not shrink, so a bare
  stream is truthful only when it reports what is left and nothing is left to read.
\<close>

definition body_ok :: "body \<Rightarrow> bool" where
  "body_ok bdy =
     (case bdy of
        CustomBytesIO b \<Rightarrow> True
      | FileWrapper w \<Rightarrow> wrapper_total_len w = int (length (file_content (fd w)))
      | BinaryIO f \<Rightarrow>
          total_len (probes_of_file f) = Inr (int (length (file_content f)) - int (file_pos f))
          \<and> length (file_content f) \<le> file_pos f)"

text \<open>
  A body is stuck when the size found for it stays positive however much is read: a
  wrapped stream, positioned within its bytes, that reported more bytes than it holds, and
  a bare stream of positive size.
\<close>

definition stuck :: "body \<Rightarrow> bool" where
  "stuck bdy =
     (case bdy of
        CustomBytesIO b \<Rightarrow> False
      | FileWrapper w \<Rightarrow>
          file_pos (fd w) \<le> length (file_content (fd w))
          \<and> int (length (file_content (fd w))) < wrapper_total_len w
      | BinaryIO f \<Rightarrow> (case total_len (probes_of_file f) of Inl err \<Rightarrow> False | Inr n \<Rightarrow> 0 < n))"

text \<open>
  What a part has still to write: its headers if they are unread, and the unread bytes of
  its body. A part is in order when its body is truthful and positioned within its bytes.
\<close>

definition part_rest :: "part \<Rightarrow> bytes" where
  "part_rest p = (if headers_unread p then headers p else []) @ body_unread (body p)"

definition part_ok :: "part \<Rightarrow> bool" where
  "part_ok p = (body_ok (body p) \<and> body_pos (body p) \<le> length (body_content (body p)))"

text \<open>A field's data that is positioned within its bytes.\<close>

definition positioned :: "field_data \<Rightarrow> bool" where
  "positioned d =
     (case d of
        DataFile f \<Rightarrow> file_pos f \<le> length (file_content f)
      | DataCustomBytesIO b \<Rightarrow> pos b \<le> length (content b)
      | _ \<Rightarrow> True)"

text \<open>
  What \<^verbatim>\<open>_write_closing_boundary\<close> makes of the content of the buffer: the last two
  bytes, if there are that many, give way to \<^verbatim>\<open>--\r\n\<close>.
\<close>

definition close_stream :: "bytes \<Rightarrow> bytes" where
  "close_stream xs = take (length xs - 2) xs @ ''--'' @ CRLF"

text \<open>
  The body as the spec orders it, for the encoded boundary \<open>E\<close> (\<^verbatim>\<open>--boundary\<close>) and
  the bytes of the parts: each part after a delimiter line and followed by CRLF, then the
  closing delimiter line.
\<close>

definition multipart_body :: "bytes \<Rightarrow> bytes list \<Rightarrow> bytes" where
  "multipart_body E rs = concat (map (\<lambda>r. E @ CRLF @ r @ CRLF) rs) @ E @ ''--'' @ CRLF"

text \<open>The value that \<^verbatim>\<open>_calculate_length\<close> computes, in closed form.\<close>

definition computed_length :: "multipart_encoder \<Rightarrow> int" where
  "computed_length s =
     sum_list (map len (parts s)) + (int (length (boundary s)) + 4) * (int (length (parts s)) + 1)"

text \<open>
  A field's data that offers \<^verbatim>\<open>total_len\<close> nothing: a stream without
  \<^verbatim>\<open>__len__\<close> and \<^verbatim>\<open>len\<close>, whose \<^verbatim>\<open>fileno()\<close> raises
  \<^verbatim>\<open>io.UnsupportedOperation\<close>, and without \<^verbatim>\<open>getvalue\<close>.
\<close>

definition sizeless :: "field_data \<Rightarrow> bool" where
  "sizeless d =
     (case d of
        DataFile f \<Rightarrow>
          file_dunder_len f = None \<and> file_len f = None \<and> file_fileno f = UnsupportedOperation
          \<and> file_getvalue f = None
      | _ \<Rightarrow> False)"

text \<open>A field's data whose size, as \<^verbatim>\<open>total_len\<close> finds it, is the number of bytes it holds.\<close>

definition truthful :: "field_data \<Rightarrow> bool" where
  "truthful d =
     (case d of
        DataFile f \<Rightarrow> total_len (probes_of_file f) = Inr (int (length (file_content f)))
      | _ \<Rightarrow> True)"

text \<open>
  The total length as the spec words it: the sum of the parts' lengths plus
  \<open>overhead_len \<times> (N + 1)\<close>, where \<open>overhead_len\<close> is the length of the boundary
  delimiter line \<^verbatim>\<open>--boundary\r\n\<close>. It is compared with \<open>computed_length\<close> below.
\<close>

definition spec_total_length :: "bytes \<Rightarrow> int list \<Rightarrow> int" where
  "spec_total_length boundary_delimiter_line part_lens =
     sum_list part_lens + int (length boundary_delimiter_line) * (int (length part_lens) + 1)"

section \<open>Clients of the encoder\<close>

text \<open>
  A client that reads the body \<open>c\<close> bytes at a time (\<open>- 1\<close>: without bound) until a read
  returns no bytes, and joins what it has read.
\<close>

partial_function (option) read_until_empty ::
  "multipart_encoder \<Rightarrow> int \<Rightarrow> bytes \<Rightarrow> (error + bytes \<times> multipart_encoder) option"
where
  "read_until_empty s c acc =
     (case MultipartEncoder_read s c of
        None \<Rightarrow> None
      | Some (Inl err) \<Rightarrow> Some (Inl err)
      | Some (Inr (chunk, s')) \<Rightarrow>
          if chunk = [] then Some (Inr (acc, s')) else read_until_empty s' c (acc @ chunk))"

declare read_until_empty.simps [code]

text \<open>Construct an encoder and read its body in chunks.\<close>

definition encode_in_chunks ::
  "(request_field \<Rightarrow> str) \<Rightarrow> str \<Rightarrow> fields \<Rightarrow> str option \<Rightarrow> encoding \<Rightarrow> int
     \<Rightarrow> (error + bytes) option"
where
  "encode_in_chunks render chosen flds bnd e c =
     (case MultipartEncoder_init render chosen flds bnd e 32768 of
        Inl err \<Rightarrow> Some (Inl err)
      | Inr s \<Rightarrow>
          (case read_until_empty s c [] of
             None \<Rightarrow> None
           | Some (Inl err) \<Rightarrow> Some (Inl err)
           | Some (Inr (bs, s')) \<Rightarrow> Some (Inr bs)))"

text \<open>Construct an encoder, take \<^verbatim>\<open>len\<close> of it, then read the whole body.\<close>

definition declared_length_and_body ::
  "(request_field \<Rightarrow> str) \<Rightarrow> str \<Rightarrow> fields \<Rightarrow> str option \<Rightarrow> encoding
     \<Rightarrow> (error + int \<times> bytes) option"
where
  "declared_length_and_body render chosen flds bnd e =
     (case MultipartEncoder_init render chosen flds bnd e 32768 of
        Inl err \<Rightarrow> Some (Inl err)
      | Inr s \<Rightarrow>
          (case MultipartEncoder_dunder_len s of
             Inl err \<Rightarrow> Some (Inl err)
           | Inr (l, s1) \<Rightarrow>
               (case read_until_empty s1 (- 1) [] of
                  None \<Rightarrow> None
                | Some (Inl err) \<Rightarrow> Some (Inl err)
                | Some (Inr (bs, s2)) \<Rightarrow> Some (Inr (l, bs)))))"

text \<open>Construct an encoder and collect the chunks that iterating over it yields.\<close>

definition encode_by_iteration ::
  "(request_field \<Rightarrow> str) \<Rightarrow> str \<Rightarrow> fields \<Rightarrow> str option \<Rightarrow> encoding \<Rightarrow> int
     \<Rightarrow> (error + bytes list) option"
where
  "encode_by_iteration render chosen flds bnd e default_iter_size =
     (case MultipartEncoder_init render chosen flds bnd e default_iter_size of
        Inl err \<Rightarrow> Some (Inl err)
      | Inr s \<Rightarrow>
          (case MultipartEncoder_iter s [] of
             None \<Rightarrow> None
           | Some (Inl err) \<Rightarrow> Some (Inl err)
           | Some (Inr (chunks, s')) \<Rightarrow> Some (Inr chunks)))"

text \<open>
  The encoder that the annotation \<^verbatim>\<open>_encoded_boundary: bytes\<close> and the comment
  \<^verbatim>\<open># Load boundary into buffer\<close> of the constructor describe: the attributes as
  assigned, with the encoded delimiter in place of the tuple around it, and that
  delimiter appended to the buffer. No call of the constructor returns it. It serves to
  examine the load loop apart from the constructor.
\<close>

definition with_boundary_bytes :: "multipart_encoder \<Rightarrow> multipart_encoder" where
  "with_boundary_bytes s =
     (case encoded_boundary s of
        Tuple [Bytes encoded] \<Rightarrow>
          s\<lparr>encoded_boundary := Bytes encoded,
            buffer := (buffer s)\<lparr>content := content (buffer s) @ encoded\<rparr>\<rparr>
      | _ \<Rightarrow> s)"

section \<open>Properties\<close>

subsection \<open>The buffer\<close>

lemma CustomBytesIO_get_end_eq: "CustomBytesIO_get_end b = (length (content b), b)"
  by (simp add: CustomBytesIO_get_end_def BytesIO_tell_def BytesIO_seek_end_def
      BytesIO_seek_set_def Let_def)

lemma CustomBytesIO_len_eq: "CustomBytesIO_len b = int (length (content b)) - int (pos b)"
  by (simp add: CustomBytesIO_len_def CustomBytesIO_get_end_eq BytesIO_tell_def)

lemma CustomBytesIO_append_bytes:
  "CustomBytesIO_append b (Bytes bs) = Inr (b\<lparr>content := content b @ bs\<rparr>, int (length bs))"
  by (cases "bs = []")
     (simp_all add: CustomBytesIO_append_def BytesIO_write_def BytesIO_write_bytes_def
      BytesIO_tell_def BytesIO_seek_end_def BytesIO_seek_set_def Let_def)

lemma CustomBytesIO_append_tuple:
  "CustomBytesIO_append b (Tuple vs) = Inl TypeError_bytes_like_required"
  by (simp add: CustomBytesIO_append_def BytesIO_write_def)

lemma BytesIO_read_eq:
  "BytesIO_read b sz =
     (let k = (if sz < 0 then length (unread b) else min (nat sz) (length (unread b)))
      in (take k (unread b), b\<lparr>pos := pos b + k\<rparr>))"
  by (auto simp add: BytesIO_read_def unread_def Let_def min_def)

lemma CustomBytesIO_smart_truncate_eq:
  "CustomBytesIO_smart_truncate b =
     (if int (length (content b)) - int (pos b) \<le> int (pos b)
      then \<lparr>content = unread b, pos = 0\<rparr> else b)"
  by (simp add: CustomBytesIO_smart_truncate_def CustomBytesIO_len_eq CustomBytesIO_get_end_eq
      Let_def BytesIO_read_def BytesIO_seek_set_def BytesIO_truncate_def BytesIO_write_bytes_def
      unread_def split: prod.splits)

subsection \<open>Bodies\<close>

lemma total_len_body:
  "body_ok bdy \<Longrightarrow>
   total_len (probes_of_body bdy) = Inr (int (length (body_content bdy)) - int (body_pos bdy))"
  by (cases bdy)
     (simp_all add: total_len_def probes_of_body_def body_ok_def body_content_def body_pos_def
        CustomBytesIO_len_eq FileWrapper_len_def)

lemma body_read_eq:
  "body_read bdy n =
     (let k = (if n < 0 then length (body_unread bdy) else min (nat n) (length (body_unread bdy)))
      in (take k (body_unread bdy), body_advance bdy k))"
  by (cases bdy)
     (simp_all add: body_read_def BytesIO_read_eq FileWrapper_read_def file_read_def
        body_unread_def body_content_def body_pos_def body_advance_def unread_def Let_def)

lemma body_advance_simps [simp]:
  "body_content (body_advance bdy k) = body_content bdy"
  "body_pos (body_advance bdy k) = body_pos bdy + k"
  "body_advance bdy 0 = bdy"
  by (cases bdy; simp add: body_content_def body_pos_def body_advance_def)+

lemma body_ok_advance:
  assumes "body_ok bdy" and "k \<le> length (body_unread bdy)"
  shows "body_ok (body_advance bdy k)"
proof (cases bdy)
  case (BinaryIO f)
  with assms have "k = 0" by (simp add: body_ok_def body_unread_def body_pos_def body_content_def)
  with assms(1) show ?thesis by simp
qed (use assms in \<open>simp_all add: body_ok_def body_advance_def\<close>)

lemma body_unread_advance [simp]: "body_unread (body_advance bdy k) = drop k (body_unread bdy)"
  by (simp add: body_unread_def add.commute)

lemma total_len_CustomBytesIO:
  "total_len (probes_of_body (CustomBytesIO b)) = Inr (CustomBytesIO_len b)"
  by (simp add: total_len_def probes_of_body_def)

subsection \<open>The loop of \<^verbatim>\<open>Part.write_to\<close>\<close>

text \<open>On a truthful body the loop stops at once when nothing is left or the budget is met.\<close>

lemma Part_write_to_loop_exit:
  assumes "body_ok bdy"
    and "body_unread bdy = [] \<or> (sz \<noteq> - 1 \<and> sz \<le> written)"
  shows "Part_write_to_loop bdy buf sz written = Some (Inr (bdy, buf, written))"
  using assms
  by (subst Part_write_to_loop.simps) (auto simp add: total_len_body body_unread_def)

text \<open>Otherwise one round reads what the budget allows, and the loop stops after it.\<close>

lemma Part_write_to_loop_eq:
  assumes ok: "body_ok bdy"
  shows "Part_write_to_loop bdy buf sz written =
     (let k = (if sz = - 1 then length (body_unread bdy)
               else min (length (body_unread bdy)) (nat (sz - written)))
      in Some (Inr (body_advance bdy k,
                    buf\<lparr>content := content buf @ take k (body_unread bdy)\<rparr>,
                    written + int k)))"
proof (cases "body_unread bdy = [] \<or> (sz \<noteq> - 1 \<and> sz \<le> written)")
  case True
  then show ?thesis
    using Part_write_to_loop_exit [OF ok True, of buf] by (auto simp add: Let_def)
next
  case False
  then have ne: "body_unread bdy \<noteq> []" and go: "sz = - 1 \<or> written < sz" by auto
  from ne have n: "0 < int (length (body_content bdy)) - int (body_pos bdy)"
    by (simp add: body_unread_def)
  define k where "k = (if sz = - 1 then length (body_unread bdy)
               else min (length (body_unread bdy)) (nat (sz - written)))"
  have rd: "body_read bdy (if sz \<noteq> - 1 then sz - written else sz)
              = (take k (body_unread bdy), body_advance bdy k)"
    using go by (auto simp add: body_read_eq k_def Let_def min.commute)
  have stop: "body_unread (body_advance bdy k) = [] \<or> (sz \<noteq> - 1 \<and> sz \<le> written + int k)"
    using go by (auto simp add: k_def min_def)
  have ok': "body_ok (body_advance bdy k)"
    by (rule body_ok_advance [OF ok]) (simp add: k_def)
  have len_take: "length (take k (body_unread bdy)) = k"
    by (auto simp add: k_def)
  show ?thesis
    apply (subst Part_write_to_loop.simps)
    using n go
    apply (simp add: total_len_body [OF ok] rd CustomBytesIO_append_bytes Let_def
        Part_write_to_loop_exit [OF ok' stop] len_take del: length_take)
    apply (simp add: k_def)
    done
qed

text \<open>
  The truthfulness of the body is needed: on a stuck body an unbounded \<^verbatim>\<open>write_to\<close>
  goes on reading for ever, once the stream is at its end nothing but \<^verbatim>\<open>b""\<close>.
\<close>

lemma stuck_total_len: "stuck bdy \<Longrightarrow> \<exists>n. total_len (probes_of_body bdy) = Inr n \<and> 0 < n"
  by (cases bdy)
     (auto simp add: stuck_def total_len_def probes_of_body_def FileWrapper_len_def
        split: sum.splits)

lemma stuck_advance: "stuck bdy \<Longrightarrow> stuck (body_advance bdy (length (body_unread bdy)))"
  by (cases bdy)
     (auto simp add: stuck_def body_advance_def body_unread_def body_pos_def body_content_def
        probes_of_file_def)

lemma Part_write_to_loop_stuck:
  assumes "Part_write_to_loop bdy buf sz written = Some r"
  shows "\<not> (stuck bdy \<and> sz = - 1)"
proof (rule Part_write_to_loop.raw_induct
    [where P = "\<lambda>bdy buf sz written r. \<not> (stuck bdy \<and> sz = - 1)", OF _ assms])
  fix loop :: "body \<Rightarrow> bytesio \<Rightarrow> int \<Rightarrow> int \<Rightarrow> (error + body \<times> bytesio \<times> int) option"
    and bdy buf sz written r
  assume IH: "\<And>bdy buf sz written r.
      loop bdy buf sz written = Some r \<Longrightarrow> \<not> (stuck bdy \<and> sz = - 1)"
    and step: "(case total_len (probes_of_body bdy) of
        Inl err \<Rightarrow> Some (Inl err)
      | Inr n \<Rightarrow>
          if 0 < n \<and> (sz = - 1 \<or> written < sz) then
            (let amount_to_read = (if sz \<noteq> - 1 then sz - written else sz) in
             case body_read bdy amount_to_read of
               (chunk, bdy') \<Rightarrow>
                 (case CustomBytesIO_append buf (Bytes chunk) of
                    Inl err \<Rightarrow> Some (Inl err)
                  | Inr (buffer', n') \<Rightarrow> loop bdy' buffer' sz (written + n')))
          else Some (Inr (bdy, buf, written))) = Some r"
  show "\<not> (stuck bdy \<and> sz = - 1)"
  proof
    assume s: "stuck bdy \<and> sz = - 1"
    then obtain n where tl: "total_len (probes_of_body bdy) = Inr n" "0 < n"
      using stuck_total_len by blast
    have rd: "body_read bdy (- 1)
                = (body_unread bdy, body_advance bdy (length (body_unread bdy)))"
      by (simp add: body_read_eq)
    from step s rd tl
    have "\<exists>buf' written'. loop (body_advance bdy (length (body_unread bdy))) buf' (- 1) written'
            = Some r"
      by (auto simp add: CustomBytesIO_append_bytes)
    then obtain buf' written'
      where "loop (body_advance bdy (length (body_unread bdy))) buf' (- 1) written' = Some r"
      by blast
    from IH [OF this] stuck_advance s show False by simp
  qed
qed

lemma Part_write_to_stuck: "stuck (body p) \<Longrightarrow> Part_write_to p buf (- 1) = None"
  using Part_write_to_loop_stuck [of "body p" _ "- 1"]
  by (cases "headers_unread p")
     (auto simp add: Part_write_to_def CustomBytesIO_append_bytes split: option.splits sum.splits)

text \<open>
  Claim C7 does not hold for every part: see the two parts after the theorem. It holds for
  the parts whose body is truthful, that is, whose size as \<^verbatim>\<open>total_len\<close> finds it is,
  now and after every read, the number of bytes the body has still to deliver. For every
  such part, every buffer and every budget \<open>sz\<close> (\<open>- 1\<close> for no bound),
  \<^verbatim>\<open>write_to\<close> returns. It appends the whole header block first if the headers are
  unread, whatever the budget, and marks them sent; a part whose headers are sent gets no
  header bytes again. It then appends the next \<open>k\<close> bytes of the body, where \<open>k\<close> is
  all that is left for no bound and otherwise what is left of the budget after the headers,
  capped by what the body holds. The number returned is the number of bytes appended. On
  return the body is exhausted or the budget is met. The position of the buffer does not
  move.
\<close>

theorem Part_write_to_headers_then_body:
  assumes "body_ok (body p)"
  shows "let hdr = (if headers_unread p then headers p else []);
             k = (if sz = - 1 then length (body_unread (body p))
                  else min (length (body_unread (body p))) (nat (sz - int (length hdr))))
         in Part_write_to p buf sz =
              Some (Inr (p\<lparr>headers_unread := False, body := body_advance (body p) k\<rparr>,
                         buf\<lparr>content := content buf @ hdr @ take k (body_unread (body p))\<rparr>,
                         int (length hdr) + int k))
            \<and> (k = length (body_unread (body p)) \<or> (sz \<noteq> - 1 \<and> sz \<le> int (length hdr) + int k))"
proof -
  note L = Part_write_to_loop_eq [OF assms]
  show ?thesis
  proof (cases "headers_unread p")
    case True
    then show ?thesis
      by (simp add: Part_write_to_def CustomBytesIO_append_bytes L Let_def)
         (auto simp add: min_def)
  next
    case False
    then have p: "p\<lparr>headers_unread := False\<rparr> = p" by simp
    from False show ?thesis
      by (simp add: Part_write_to_def L Let_def p) (auto simp add: min_def)
  qed
qed

text \<open>
  A part over a wrapped file of five bytes, one of them read already, with a header block
  of four bytes and a budget of six: the headers and two body bytes are appended.
\<close>

theorem Part_write_to_headers_then_body_witness:
  "body_ok (FileWrapper \<lparr>fd = \<lparr>file_content = ''hello'', file_pos = 1, file_dunder_len = None,
                                    file_len = None, file_fileno = Descriptor 5,
                                    file_getvalue = None\<rparr>, wrapper_total_len = 5\<rparr>)
   \<and> Part_write_to
        \<lparr>headers = ''h:'' @ CRLF,
         body = FileWrapper \<lparr>fd = \<lparr>file_content = ''hello'', file_pos = 1,
                                    file_dunder_len = None,
                                    file_len = None, file_fileno = Descriptor 5,
                                    file_getvalue = None\<rparr>, wrapper_total_len = 5\<rparr>,
         headers_unread = True, len = 8\<rparr>
        \<lparr>content = ''--X'' @ CRLF, pos = 2\<rparr> 6
      = Some (Inr (\<lparr>headers = ''h:'' @ CRLF,
                     body = FileWrapper \<lparr>fd = \<lparr>file_content = ''hello'', file_pos = 3,
                                    file_dunder_len = None,
                                    file_len = None, file_fileno = Descriptor 5,
                                    file_getvalue = None\<rparr>, wrapper_total_len = 5\<rparr>,
                     headers_unread = False, len = 8\<rparr>,
                   \<lparr>content = ''--X'' @ CRLF @ ''h:'' @ CRLF @ ''el'', pos = 2\<rparr>, 6))"
  using Part_write_to_headers_then_body [of "\<lparr>headers = ''h:'' @ CRLF,
         body = FileWrapper \<lparr>fd = \<lparr>file_content = ''hello'', file_pos = 1,
                                    file_dunder_len = None,
                                    file_len = None, file_fileno = Descriptor 5,
                                    file_getvalue = None\<rparr>, wrapper_total_len = 5\<rparr>,
         headers_unread = True, len = 8\<rparr>" 6 "\<lparr>content = ''--X'' @ CRLF, pos = 2\<rparr>"]
  by (simp add: body_ok_def body_unread_def body_pos_def body_content_def body_advance_def
      CRLF_def Let_def)

text \<open>
  Claim C7, for every part, fails. The field \<^verbatim>\<open>a\<close> holds a stream that delivers the
  five bytes \<^verbatim>\<open>hello\<close> and whose descriptor belongs to a file of 27 bytes, as the
  descriptor of a stream that decompresses a file does. \<^verbatim>\<open>Part.from_field\<close> makes a part
  of it, of length \<open>44 + 27\<close>. An unbounded \<^verbatim>\<open>write_to\<close> on this part does not
  return: after the five bytes the wrapper still reports 22 bytes, and every further
  \<^verbatim>\<open>read\<close> gives \<^verbatim>\<open>b""\<close>.
\<close>

theorem Part_write_to_counterexample:
  "Part_from_field render_headers
     \<lparr>name = str_of ''a'',
      data = DataFile \<lparr>file_content = ''hello'', file_pos = 0, file_dunder_len = None,
                       file_len = None, file_fileno = Descriptor 27, file_getvalue = None\<rparr>,
      filename = None, field_headers = None, content_type = None\<rparr> Utf8
   = Inr \<lparr>headers = ''Content-Disposition: form-data; name='' @ [CHR 0x22] @ ''a''
                      @ [CHR 0x22] @ CRLF @ CRLF,
          body = FileWrapper
                   \<lparr>fd = \<lparr>file_content = ''hello'', file_pos = 0, file_dunder_len = None,
                           file_len = None, file_fileno = Descriptor 27,
                           file_getvalue = None\<rparr>,
                    wrapper_total_len = 27\<rparr>,
          headers_unread = True, len = 71\<rparr>
   \<and> Part_write_to
        \<lparr>headers = ''Content-Disposition: form-data; name='' @ [CHR 0x22] @ ''a''
                     @ [CHR 0x22] @ CRLF @ CRLF,
         body = FileWrapper
                  \<lparr>fd = \<lparr>file_content = ''hello'', file_pos = 0, file_dunder_len = None,
                          file_len = None, file_fileno = Descriptor 27,
                          file_getvalue = None\<rparr>,
                   wrapper_total_len = 27\<rparr>,
         headers_unread = True, len = 71\<rparr>
        \<lparr>content = ''--X'' @ CRLF, pos = 0\<rparr> (- 1)
     = None"
proof (rule conjI)
  show "Part_from_field render_headers
     \<lparr>name = str_of ''a'',
      data = DataFile \<lparr>file_content = ''hello'', file_pos = 0, file_dunder_len = None,
                       file_len = None, file_fileno = Descriptor 27, file_getvalue = None\<rparr>,
      filename = None, field_headers = None, content_type = None\<rparr> Utf8
   = Inr \<lparr>headers = ''Content-Disposition: form-data; name='' @ [CHR 0x22] @ ''a''
                      @ [CHR 0x22] @ CRLF @ CRLF,
          body = FileWrapper
                   \<lparr>fd = \<lparr>file_content = ''hello'', file_pos = 0, file_dunder_len = None,
                           file_len = None, file_fileno = Descriptor 27,
                           file_getvalue = None\<rparr>,
                    wrapper_total_len = 27\<rparr>,
          headers_unread = True, len = 71\<rparr>"
    by code_simp
next
  show "Part_write_to
        \<lparr>headers = ''Content-Disposition: form-data; name='' @ [CHR 0x22] @ ''a''
                     @ [CHR 0x22] @ CRLF @ CRLF,
         body = FileWrapper
                  \<lparr>fd = \<lparr>file_content = ''hello'', file_pos = 0, file_dunder_len = None,
                          file_len = None, file_fileno = Descriptor 27,
                          file_getvalue = None\<rparr>,
                   wrapper_total_len = 27\<rparr>,
         headers_unread = True, len = 71\<rparr>
        \<lparr>content = ''--X'' @ CRLF, pos = 0\<rparr> (- 1)
     = None"
    by (rule Part_write_to_stuck) (simp add: stuck_def)
qed

text \<open>
  So does it for a part made by \<^verbatim>\<open>Part\<close> itself around a bare stream of positive
  size, even a regular file whose descriptor reports the bytes it holds: the size of a
  bare stream does not shrink as it is read.
\<close>

lemma Part_write_to_bare_stream:
  assumes "Part_init hdrs (BinaryIO f) = Inr p"
    and "total_len (probes_of_file f) = Inr n" and "0 < n"
  shows "Part_write_to p buf (- 1) = None"
proof (rule Part_write_to_stuck)
  from assms(1,2) have "body p = BinaryIO f"
    by (auto simp add: Part_init_def probes_of_body_def)
  with assms(2,3) show "stuck (body p)" by (simp add: stuck_def)
qed

lemma body_ok_CustomBytesIO [simp]: "body_ok (CustomBytesIO b)"
  by (simp add: body_ok_def)

text \<open>Parts made from truthful data have truthful bodies, and stay so.\<close>

lemma coerce_data_body_ok:
  "coerce_data d e = Inr bdy \<Longrightarrow> truthful d \<Longrightarrow> body_ok bdy"
  by (cases d)
     (auto simp add: truthful_def body_ok_def FileWrapper_init_def split: sum.splits)

lemma Part_from_field_body_ok:
  "Part_from_field render fld e = Inr p \<Longrightarrow> truthful (data fld) \<Longrightarrow> body_ok (body p)"
  by (auto simp add: Part_from_field_def Part_init_def split: sum.splits
      dest: coerce_data_body_ok)

subsection \<open>Reading a finished encoder\<close>

lemma sum_total_len_eq: "sum_total_len ps = Inr (sum_list (map len ps))"
  by (induction ps) (simp_all add: total_len_def probes_of_part_def)

lemma MultipartEncoder_calculate_length_eq:
  "MultipartEncoder_calculate_length s =
     Inr (computed_length s, s\<lparr>len_cache := Some (computed_length s)\<rparr>)"
  by (simp add: MultipartEncoder_calculate_length_def sum_total_len_eq computed_length_def Let_def)

lemma computed_length_buffer [simp]: "computed_length (s\<lparr>buffer := b\<rparr>) = computed_length s"
  by (simp add: computed_length_def)

lemma dunder_len_buffer:
  "map_sum id fst (MultipartEncoder_dunder_len (s\<lparr>buffer := b\<rparr>))
     = map_sum id fst (MultipartEncoder_dunder_len s)"
  by (cases "len_cache s")
     (simp_all add: MultipartEncoder_dunder_len_def MultipartEncoder_calculate_length_eq)

lemma content_length_eq:
  "map_sum id fst (MultipartEncoder_content_length s) =
     (case map_sum id fst (MultipartEncoder_dunder_len s) of
        Inl err \<Rightarrow> Inl err
      | Inr l \<Rightarrow> if l < 0 then Inl ValueError_len_negative else Inr (decimal (nat l)))"
  by (cases "MultipartEncoder_dunder_len s")
     (auto simp add: MultipartEncoder_content_length_def)

lemma content_length_buffer:
  "map_sum id fst (MultipartEncoder_content_length (s\<lparr>buffer := b\<rparr>))
     = map_sum id fst (MultipartEncoder_content_length s)"
  by (simp only: content_length_eq dunder_len_buffer)

text \<open>
  Claim C5. On an encoder whose \<^verbatim>\<open>_finished\<close> is set, \<^verbatim>\<open>read(sz)\<close> returns and
  does not raise; it returns the next \<open>k\<close> unread bytes of the buffer, all of them for a
  negative \<open>sz\<close> and at most \<open>sz\<close> otherwise, and changes nothing of the encoder but the
  position of the buffer: nothing is loaded, the encoder stays finished, and
  \<^verbatim>\<open>content_length\<close> gives what it gave before. When the buffer holds no unread
  bytes the result is empty and the encoder is the same as before, so that every later
  read finds it in this state again.
\<close>

theorem read_when_finished:
  assumes "finished s"
  shows "let k = (if sz < 0 then length (unread (buffer s))
                  else min (nat sz) (length (unread (buffer s))));
             s' = s\<lparr>buffer := (buffer s)\<lparr>pos := pos (buffer s) + k\<rparr>\<rparr>
         in MultipartEncoder_read s sz = Some (Inr (take k (unread (buffer s)), s'))
            \<and> finished s'
            \<and> map_sum id fst (MultipartEncoder_content_length s')
                = map_sum id fst (MultipartEncoder_content_length s)
            \<and> (unread (buffer s) = [] \<longrightarrow> MultipartEncoder_read s sz = Some (Inr ([], s)))"
  using assms
  by (simp add: MultipartEncoder_read_def BytesIO_read_eq Let_def content_length_buffer)

text \<open>A finished encoder with three unread bytes, asked for two.\<close>

theorem read_when_finished_witness:
  "finished \<lparr>boundary_value = str_of ''X'', boundary = str_of ''--X'', enc = Utf8,
      encoded_boundary = Tuple [Bytes (''--X'' @ CRLF)], user_fields = Sequence [],
      iter_read_size = 2, finished = True, current_part = None, len_cache = None,
      buffer = \<lparr>content = ''--X--'' @ CRLF, pos = 4\<rparr>, parts = [], iter_parts = 0\<rparr>
   \<and> MultipartEncoder_read \<lparr>boundary_value = str_of ''X'', boundary = str_of ''--X'', enc = Utf8,
      encoded_boundary = Tuple [Bytes (''--X'' @ CRLF)], user_fields = Sequence [],
      iter_read_size = 2, finished = True, current_part = None, len_cache = None,
      buffer = \<lparr>content = ''--X--'' @ CRLF, pos = 4\<rparr>, parts = [], iter_parts = 0\<rparr> 2
     = Some (Inr (''-'' @ [CHR 0x0D],
         \<lparr>boundary_value = str_of ''X'', boundary = str_of ''--X'', enc = Utf8,
          encoded_boundary = Tuple [Bytes (''--X'' @ CRLF)], user_fields = Sequence [],
          iter_read_size = 2, finished = True, current_part = None, len_cache = None,
          buffer = \<lparr>content = ''--X--'' @ CRLF, pos = 6\<rparr>, parts = [], iter_parts = 0\<rparr>))"
  using read_when_finished [of "\<lparr>boundary_value = str_of ''X'', boundary = str_of ''--X'',
      enc = Utf8,
      encoded_boundary = Tuple [Bytes (''--X'' @ CRLF)], user_fields = Sequence [],
      iter_read_size = 2, finished = True, current_part = None, len_cache = None,
      buffer = \<lparr>content = ''--X--'' @ CRLF, pos = 4\<rparr>, parts = [], iter_parts = 0\<rparr>" 2]
  by (simp add: unread_def CRLF_def Let_def)

subsection \<open>The computed length\<close>

text \<open>
  A delimiter line of ASCII characters encodes, in each of the codecs, to one byte per
  character.
\<close>

lemma str_encode_ascii:
  "(\<And>c. c \<in> set cs \<Longrightarrow> c < 0x80) \<Longrightarrow> str_encode e cs = Inr (map char_of cs)"
proof (induction cs)
  case Nil
  show ?case by simp
next
  case (Cons c cs)
  then have c: "c < 0x80" and cs: "str_encode e cs = Inr (map char_of cs)" by simp_all
  from c have "encode_code_point e c = Inr [char_of c]"
    by (cases e) (simp_all add: encode_code_point_def)
  with cs show ?case by simp
qed

lemma ascii_delimiter_line:
  assumes "\<And>c. c \<in> set bd \<Longrightarrow> c < 0x80"
  shows "\<exists>D. encode_with (AStr (bd @ [0x0D, 0x0A])) e = Inr D \<and> length D = length bd + 2"
proof -
  have "str_encode e (bd @ [0x0D, 0x0A]) = Inr (map char_of (bd @ [0x0D, 0x0A]))"
    by (rule str_encode_ascii) (use assms in auto)
  then show ?thesis by simp
qed

text \<open>
  Claim C8, with the overhead as the code has it, for a boundary whose delimiter line
  encodes to one byte per character. Let \<open>D\<close> be the encoded delimiter line
  \<^verbatim>\<open>--boundary\r\n\<close>, that is \<^verbatim>\<open>encode_with(self._boundary + "\r\n", self._enc)\<close>,
  and let it have as many bytes as the line has characters. Then \<^verbatim>\<open>_calculate_length\<close>
  does not raise; it caches and returns the sum of the parts' lengths plus
  \<open>overhead_len \<times> (N + 1)\<close>, where \<open>N\<close> is the number of parts and
  \<open>overhead_len\<close> is the length of \<open>D\<close> plus two. The length of a part is fixed when
  the part is made, as the length of its header block plus the size \<^verbatim>\<open>total_len\<close>
  finds for its body then.
\<close>

theorem calculate_length_formula:
  assumes "encode_with (AStr (boundary s @ [0x0D, 0x0A])) (enc s) = Inr D"
    and "length D = length (boundary s) + 2"
  shows "MultipartEncoder_calculate_length s =
           (let l = sum_list (map len (parts s))
                    + (int (length D) + 2) * (int (length (parts s)) + 1)
            in Inr (l, s\<lparr>len_cache := Some l\<rparr>))
         \<and> map_sum id len (Part_init hdrs bdy)
             = map_sum id (\<lambda>n. int (length hdrs) + n) (total_len (probes_of_body bdy))"
  using assms(2)
  by (cases "total_len (probes_of_body bdy)")
     (simp_all add: MultipartEncoder_calculate_length_eq computed_length_def Let_def Part_init_def)

text \<open>
  An encoder with the boundary \<^verbatim>\<open>X\<close> and one part of length 9: the delimiter line
  \<^verbatim>\<open>--X\r\n\<close> has 5 bytes, and the computed length is \<open>9 + 7 \<times> 2 = 23\<close>.
\<close>

theorem calculate_length_formula_witness:
  "encode_with (AStr (str_of ''--X'' @ [0x0D, 0x0A])) Utf8 = Inr (''--X'' @ CRLF)
   \<and> length (''--X'' @ CRLF) = length (str_of ''--X'') + 2
   \<and> MultipartEncoder_calculate_length
      \<lparr>boundary_value = str_of ''X'', boundary = str_of ''--X'', enc = Utf8,
       encoded_boundary = Tuple [Bytes (''--X'' @ CRLF)], user_fields = Sequence [],
       iter_read_size = 2, finished = False, current_part = None, len_cache = None,
       buffer = \<lparr>content = [], pos = 0\<rparr>,
       parts = [\<lparr>headers = ''h:'' @ CRLF, body = CustomBytesIO \<lparr>content = ''hello'', pos = 0\<rparr>,
                 headers_unread = True, len = 9\<rparr>],
       iter_parts = 0\<rparr>
     = Inr (23,
      \<lparr>boundary_value = str_of ''X'', boundary = str_of ''--X'', enc = Utf8,
       encoded_boundary = Tuple [Bytes (''--X'' @ CRLF)], user_fields = Sequence [],
       iter_read_size = 2, finished = False, current_part = None, len_cache = Some 23,
       buffer = \<lparr>content = [], pos = 0\<rparr>,
       parts = [\<lparr>headers = ''h:'' @ CRLF, body = CustomBytesIO \<lparr>content = ''hello'', pos = 0\<rparr>,
                 headers_unread = True, len = 9\<rparr>],
       iter_parts = 0\<rparr>)
   \<and> map_sum id len (Part_init (''h:'' @ CRLF) (CustomBytesIO \<lparr>content = ''hello'', pos = 0\<rparr>))
     = Inr 9"
proof -
  let ?s = "\<lparr>boundary_value = str_of ''X'', boundary = str_of ''--X'', enc = Utf8,
       encoded_boundary = Tuple [Bytes (''--X'' @ CRLF)], user_fields = Sequence [],
       iter_read_size = 2, finished = False, current_part = None, len_cache = None,
       buffer = \<lparr>content = [], pos = 0\<rparr>,
       parts = [\<lparr>headers = ''h:'' @ CRLF, body = CustomBytesIO \<lparr>content = ''hello'', pos = 0\<rparr>,
                 headers_unread = True, len = 9\<rparr>],
       iter_parts = 0\<rparr>"
  have D: "encode_with (AStr (str_of ''--X'' @ [0x0D, 0x0A])) Utf8 = Inr (''--X'' @ CRLF)"
    by code_simp
  have L: "length (''--X'' @ CRLF) = length (str_of ''--X'') + 2"
    by (simp add: str_of_def CRLF_def)
  have T: "total_len (probes_of_body (CustomBytesIO \<lparr>content = ''hello'', pos = 0\<rparr>)) = Inr 5"
    by code_simp
  have H1: "encode_with (AStr (boundary ?s @ [0x0D, 0x0A])) (enc ?s) = Inr (''--X'' @ CRLF)"
    using D by simp
  have H2: "length (''--X'' @ CRLF) = length (boundary ?s) + 2"
    using L by simp
  note R = calculate_length_formula [OF H1 H2, of "''h:'' @ CRLF"
      "CustomBytesIO \<lparr>content = ''hello'', pos = 0\<rparr>"]
  have R1: "MultipartEncoder_calculate_length ?s = Inr (23, ?s\<lparr>len_cache := Some 23\<rparr>)"
    using R [THEN conjunct1] by (simp add: Let_def CRLF_def)
  have R2: "map_sum id len (Part_init (''h:'' @ CRLF)
              (CustomBytesIO \<lparr>content = ''hello'', pos = 0\<rparr>)) = Inr 9"
    using R [THEN conjunct2] by (simp add: T CRLF_def)
  from D L R1 R2 show ?thesis by simp
qed

text \<open>
  Claim C8, as the spec words it, fails. Just before its last statement the constructor
  has assigned every attribute that \<^verbatim>\<open>_calculate_length\<close> reads. For the field
  \<^verbatim>\<open>("a", b"1")\<close> and the boundary \<^verbatim>\<open>X\<close> it assigns one part of length 45; \<^verbatim>\<open>_calculate_length\<close> gives
  \<open>45 + 7 \<times> 2 = 59\<close>, and the formula with the length 5 of the delimiter line
  \<^verbatim>\<open>--X\r\n\<close> as overhead gives \<open>45 + 5 \<times> 2 = 55\<close>.
\<close>

theorem calculate_length_counterexample:
  "\<not> isl (MultipartEncoder_init_attributes render_headers []
            (Sequence [(str_of ''a'', Bare (DataBytes ''1''))]) (Some (str_of ''X'')) Utf8 32768)
   \<and> map_sum id fst (MultipartEncoder_calculate_length
        (projr (MultipartEncoder_init_attributes render_headers []
            (Sequence [(str_of ''a'', Bare (DataBytes ''1''))]) (Some (str_of ''X'')) Utf8 32768)))
       = Inr 59
   \<and> spec_total_length (''--X'' @ CRLF)
        (map len (parts (projr (MultipartEncoder_init_attributes render_headers []
            (Sequence [(str_of ''a'', Bare (DataBytes ''1''))]) (Some (str_of ''X'')) Utf8 32768))))
       = 55"
  by code_simp

subsection \<open>Sources without a size\<close>

lemma str_encode_error: "str_encode e s = Inl err \<Longrightarrow> err = UnicodeEncodeError"
  by (induction s arbitrary: err)
     (auto simp add: encode_code_point_def split: sum.splits encoding.splits if_splits)

lemma encode_with_error: "encode_with t e = Inl err \<Longrightarrow> err = UnicodeEncodeError"
  by (cases t) (auto dest: str_encode_error)

lemma total_len_error_iff:
  "total_len ob = Inl err \<longleftrightarrow>
     err = ValueError_unable_to_compute_size \<and> has_dunder_len ob = None \<and> has_len ob = None
     \<and> (has_fileno ob = None \<or> has_fileno ob = Some UnsupportedOperation)
     \<and> has_getvalue ob = None"
  by (auto simp add: total_len_def split: option.splits fileno_result.splits)

text \<open>The bodies that \<^verbatim>\<open>coerce_data\<close> gives have the property \<^verbatim>\<open>len\<close>.\<close>

lemma coerce_data_total_len:
  "coerce_data d e = Inr bdy \<Longrightarrow> \<not> isl (total_len (probes_of_body bdy))"
  by (cases d) (auto simp add: total_len_def probes_of_body_def split: sum.splits)

lemma CustomBytesIO_init_error:
  "CustomBytesIO_init t e = Inl err \<Longrightarrow> err = UnicodeEncodeError"
  by (auto simp add: CustomBytesIO_init_def Let_def split: sum.splits dest: encode_with_error)

lemma FileWrapper_init_error:
  "FileWrapper_init f = Inl err \<longleftrightarrow> total_len (probes_of_file f) = Inl err"
  by (simp add: FileWrapper_init_def split: sum.splits)

lemma coerce_data_file_error:
  "coerce_data (DataFile f) e = Inl err \<longleftrightarrow> total_len (probes_of_file f) = Inl err"
  by (simp add: FileWrapper_init_error [symmetric] split: sum.splits)

lemma coerce_data_size_error:
  "coerce_data d e = Inl ValueError_unable_to_compute_size \<longleftrightarrow> sizeless d"
proof (cases d)
  case (DataFile f)
  then show ?thesis
    by (simp only: coerce_data_file_error total_len_error_iff)
       (simp add: sizeless_def probes_of_file_def)
qed (auto simp add: sizeless_def split: sum.splits dest: CustomBytesIO_init_error)

lemma Part_init_never_raises: "coerce_data d e = Inr bdy \<Longrightarrow> Part_init hdrs bdy \<noteq> Inl err"
  using coerce_data_total_len [of d e bdy]
  by (cases "total_len (probes_of_body bdy)") (simp_all add: Part_init_def)

lemma Part_from_field_size_error:
  "Part_from_field render fld e = Inl ValueError_unable_to_compute_size \<longleftrightarrow>
     \<not> isl (encode_with (AStr (render fld)) e) \<and> sizeless (data fld)"
proof (cases "encode_with (AStr (render fld)) e")
  case (Inl err)
  then show ?thesis
    using encode_with_error [OF Inl] by (simp add: Part_from_field_def)
next
  case (Inr hdrs)
  show ?thesis
  proof (cases "coerce_data (data fld) e")
    case (Inl err)
    then show ?thesis
      using Inr coerce_data_size_error [of "data fld" e] by (auto simp add: Part_from_field_def)
  next
    case (Inr bdy)
    then show ?thesis
      using \<open>encode_with (AStr (render fld)) e = Inr hdrs\<close>
        coerce_data_size_error [of "data fld" e] Part_init_never_raises [OF Inr, of hdrs]
      by (auto simp add: Part_from_field_def)
  qed
qed

text \<open>
  Preparing the parts raises the size error exactly when some field is reached, every
  field before it having given a part, whose headers encode and whose data has no size.
\<close>

lemma prepare_parts_size_error:
  "prepare_parts render e kvs = Inl ValueError_unable_to_compute_size \<longleftrightarrow>
     (\<exists>pre k v post fld. kvs = pre @ (k, v) # post \<and> \<not> isl (prepare_parts render e pre)
        \<and> iter_field (k, v) = Inr fld \<and> \<not> isl (encode_with (AStr (render fld)) e)
        \<and> sizeless (data fld))"
  (is "?L kvs \<longleftrightarrow> ?R kvs")
proof (induction kvs)
  case Nil
  then show ?case by simp
next
  case (Cons kv kvs)
  obtain k v where kv: "kv = (k, v)" by (cases kv)
  show ?case
  proof (cases "iter_field kv")
    case (Inl err)
    then have err: "err = ValueError_unpack" using kv by (cases v) auto
    have "\<not> ?R (kv # kvs)"
    proof
      assume "?R (kv # kvs)"
      then obtain pre k' v' post fld where d: "kv # kvs = pre @ (k', v') # post"
        and p: "\<not> isl (prepare_parts render e pre)" and f: "iter_field (k', v') = Inr fld"
        by blast
      show False
      proof (cases pre)
        case Nil
        with d f Inl show False by simp
      next
        case (Cons a pre')
        with d p Inl show False by simp
      qed
    qed
    moreover have "\<not> ?L (kv # kvs)" using Inl err by simp
    ultimately show ?thesis by blast
  next
    case (Inr fld)
    show ?thesis
    proof (cases "Part_from_field render fld e")
      case (Inl err)
      have "?L (kv # kvs) \<longleftrightarrow> err = ValueError_unable_to_compute_size"
        using Inr Inl by auto
      moreover have "?R (kv # kvs) \<longleftrightarrow> err = ValueError_unable_to_compute_size"
      proof
        assume "?R (kv # kvs)"
        then obtain pre k' v' post fld' where d: "kv # kvs = pre @ (k', v') # post"
          and p: "\<not> isl (prepare_parts render e pre)" and f: "iter_field (k', v') = Inr fld'"
          and h: "\<not> isl (encode_with (AStr (render fld')) e)" and z: "sizeless (data fld')"
          by blast
        show "err = ValueError_unable_to_compute_size"
        proof (cases pre)
          case Nil
          with d f Inr have "fld' = fld" by simp
          with h z Part_from_field_size_error [of render fld e] Inl show ?thesis by simp
        next
          case (Cons a pre')
          with d p Inr Inl show ?thesis by simp
        qed
      next
        assume "err = ValueError_unable_to_compute_size"
        with Inl Part_from_field_size_error [of render fld e]
        have "\<not> isl (encode_with (AStr (render fld)) e)" "sizeless (data fld)" by simp_all
        with Inr kv have "kv # kvs = [] @ (k, v) # kvs \<and> \<not> isl (prepare_parts render e [])
          \<and> iter_field (k, v) = Inr fld \<and> \<not> isl (encode_with (AStr (render fld)) e)
          \<and> sizeless (data fld)" by simp
        then show "?R (kv # kvs)" by blast
      qed
      ultimately show ?thesis by blast
    next
      case (Inr p)
      note fld = \<open>iter_field kv = Inr fld\<close>
      have L: "?L (kv # kvs) \<longleftrightarrow> ?L kvs"
        using fld Inr by (auto split: sum.splits)
      have R: "?R (kv # kvs) \<longleftrightarrow> ?R kvs"
      proof
        assume "?R (kv # kvs)"
        then obtain pre k' v' post fld' where d: "kv # kvs = pre @ (k', v') # post"
          and p': "\<not> isl (prepare_parts render e pre)" and f: "iter_field (k', v') = Inr fld'"
          and h: "\<not> isl (encode_with (AStr (render fld')) e)" and z: "sizeless (data fld')"
          by blast
        show "?R kvs"
        proof (cases pre)
          case Nil
          with d f fld have "fld' = fld" by simp
          with h z Part_from_field_size_error [of render fld e] Inr show ?thesis by simp
        next
          case (Cons a pre')
          with d have a: "a = kv" and kvs: "kvs = pre' @ (k', v') # post" by simp_all
          from p' Cons a fld Inr have "\<not> isl (prepare_parts render e pre')"
            by (auto split: sum.splits)
          with kvs f h z show ?thesis by blast
        qed
      next
        assume "?R kvs"
        then obtain pre k' v' post fld' where d: "kvs = pre @ (k', v') # post"
          and p': "\<not> isl (prepare_parts render e pre)" and f: "iter_field (k', v') = Inr fld'"
          and h: "\<not> isl (encode_with (AStr (render fld')) e)" and z: "sizeless (data fld')"
          by blast
        from p' fld Inr have "\<not> isl (prepare_parts render e (kv # pre))"
          by (auto split: sum.splits)
        moreover from d have "kv # kvs = (kv # pre) @ (k', v') # post" by simp
        ultimately show "?R (kv # kvs)" using f h z by blast
      qed
      from L R Cons.IH show ?thesis by simp
    qed
  qed
qed

subsection \<open>The constructor\<close>

lemma init_attributes_encoded_boundary:
  "MultipartEncoder_init_attributes render chosen flds bnd e n = Inr s \<Longrightarrow>
   \<exists>encoded. encoded_boundary s = Tuple [Bytes encoded]"
  by (auto simp add: MultipartEncoder_init_attributes_def Let_def split: sum.splits)

text \<open>Writing the boundary raises whenever the attribute holds a tuple.\<close>

lemma write_boundary_tuple:
  "encoded_boundary s = Tuple vs \<Longrightarrow>
   MultipartEncoder_write_boundary s = Inl TypeError_bytes_like_required"
  by (simp add: MultipartEncoder_write_boundary_def MultipartEncoder_write_def
      CustomBytesIO_append_tuple)

text \<open>So does closing a part that has nothing left to write.\<close>

lemma load_close_part_tuple:
  "encoded_boundary s = Tuple vs \<Longrightarrow> Part_bytes_left_to_write (parts s ! i) = Inr False \<Longrightarrow>
   MultipartEncoder_load_close_part s (Some i) = Inl TypeError_bytes_like_required"
  by (simp add: MultipartEncoder_load_close_part_def MultipartEncoder_write_def
      CustomBytesIO_append_bytes write_boundary_tuple)

text \<open>
  Whenever the attributes can be assigned, the last statement of the constructor raises
  \<^verbatim>\<open>TypeError\<close>: no call of the constructor returns an encoder.
\<close>

lemma MultipartEncoder_init_eq:
  "MultipartEncoder_init render chosen flds bnd e n =
     (case MultipartEncoder_init_attributes render chosen flds bnd e n of
        Inl err \<Rightarrow> Inl err
      | Inr s \<Rightarrow> Inl TypeError_bytes_like_required)"
proof (cases "MultipartEncoder_init_attributes render chosen flds bnd e n")
  case (Inl err)
  then show ?thesis by (simp add: MultipartEncoder_init_def)
next
  case (Inr s)
  from init_attributes_encoded_boundary [OF Inr] obtain encoded
    where "encoded_boundary s = Tuple [Bytes encoded]" ..
  with Inr show ?thesis
    by (simp add: MultipartEncoder_init_def write_boundary_tuple)
qed

lemma MultipartEncoder_init_raises: "isl (MultipartEncoder_init render chosen flds bnd e n)"
  by (simp add: MultipartEncoder_init_eq split: sum.splits)

lemma init_attributes_size_error:
  "MultipartEncoder_init_attributes render chosen flds bnd e n
     = Inl ValueError_unable_to_compute_size \<longleftrightarrow>
   \<not> isl (encode_with (AStr (str_of ''--''
            @ (case bnd of None \<Rightarrow> chosen | Some b \<Rightarrow> if b = [] then chosen else b)
            @ [0x0D, 0x0A])) e)
   \<and> prepare_parts render e (to_list flds) = Inl ValueError_unable_to_compute_size"
proof -
  have b: "CustomBytesIO_init None e = Inr (BytesIO_init [])"
    by (simp add: CustomBytesIO_init_def)
  show ?thesis
    by (auto simp add: MultipartEncoder_init_attributes_def Let_def b
        split: sum.splits dest: encode_with_error str_encode_error)
qed

text \<open>
  Claim C9. \<^verbatim>\<open>total_len\<close> raises its \<^verbatim>\<open>ValueError\<close> exactly for an object with no
  \<^verbatim>\<open>__len__\<close>, no \<^verbatim>\<open>len\<close>, no descriptor from \<^verbatim>\<open>fileno\<close> and no
  \<^verbatim>\<open>getvalue\<close>. Making the part of a field raises it exactly when the headers of the
  field encode and its data offers none of them. The constructor raises it, and returns no
  encoder, exactly when the boundary encodes and it reaches such a field, every field
  before it having given a part; for fields whose data all offer a size it does not raise
  this error.
\<close>

theorem size_unavailable_iff:
  "(total_len ob = Inl ValueError_unable_to_compute_size \<longleftrightarrow>
      has_dunder_len ob = None \<and> has_len ob = None
      \<and> (has_fileno ob = None \<or> has_fileno ob = Some UnsupportedOperation)
      \<and> has_getvalue ob = None)
   \<and> (Part_from_field render fld e = Inl ValueError_unable_to_compute_size \<longleftrightarrow>
        \<not> isl (encode_with (AStr (render fld)) e) \<and> sizeless (data fld))
   \<and> (MultipartEncoder_init render chosen flds bnd e n = Inl ValueError_unable_to_compute_size
        \<longleftrightarrow>
        \<not> isl (encode_with (AStr (str_of ''--''
            @ (case bnd of None \<Rightarrow> chosen | Some b \<Rightarrow> if b = [] then chosen else b)
            @ [0x0D, 0x0A])) e)
        \<and> (\<exists>pre k v post fld'. to_list flds = pre @ (k, v) # post
              \<and> \<not> isl (prepare_parts render e pre)
              \<and> iter_field (k, v) = Inr fld' \<and> \<not> isl (encode_with (AStr (render fld')) e)
              \<and> sizeless (data fld')))"
proof -
  have "MultipartEncoder_init render chosen flds bnd e n = Inl ValueError_unable_to_compute_size
        \<longleftrightarrow> MultipartEncoder_init_attributes render chosen flds bnd e n
              = Inl ValueError_unable_to_compute_size"
    by (simp add: MultipartEncoder_init_eq split: sum.splits)
  then show ?thesis
    by (simp only: init_attributes_size_error prepare_parts_size_error
        Part_from_field_size_error total_len_error_iff) simp
qed

text \<open>
  An instance: the second of two fields is a stream that offers no size; the constructor
  raises the size error. With a stream that has a descriptor it raises the
  \<^verbatim>\<open>TypeError\<close> of its last statement instead.
\<close>

lemma size_unavailable_example:
  "MultipartEncoder_init render_headers []
     (Sequence [(str_of ''a'', Bare (DataBytes ''1'')),
                (str_of ''f'', Bare (DataFile \<lparr>file_content = ''hello'', file_pos = 0,
                    file_dunder_len = None, file_len = None,
                    file_fileno = UnsupportedOperation, file_getvalue = None\<rparr>))])
     (Some (str_of ''X'')) Utf8 32768
   = Inl ValueError_unable_to_compute_size
   \<and> MultipartEncoder_init render_headers []
     (Sequence [(str_of ''a'', Bare (DataBytes ''1'')),
                (str_of ''f'', Bare (DataFile \<lparr>file_content = ''hello'', file_pos = 0,
                    file_dunder_len = None, file_len = None,
                    file_fileno = Descriptor 5, file_getvalue = None\<rparr>))])
     (Some (str_of ''X'')) Utf8 32768
   = Inl TypeError_bytes_like_required"
  by code_simp

subsection \<open>Running the encoder on given inputs\<close>

lemmas run_simps =
  MultipartEncoder_init_attributes_def str_of_def encode_code_point_def
  CustomBytesIO_init_def BytesIO_init_def render_headers_def Part_from_field_def Part_init_def
  total_len_def probes_of_body_def probes_of_part_def CustomBytesIO_len_eq with_boundary_bytes_def
  read_until_empty.simps MultipartEncoder_iter.simps MultipartEncoder_read_def
  MultipartEncoder_load_def MultipartEncoder_calculate_load_amount_def
  CustomBytesIO_smart_truncate_eq MultipartEncoder_next_part_def
  MultipartEncoder_load_loop.simps MultipartEncoder_load_close_part_def
  Part_bytes_left_to_write_def Part_write_to_def Part_write_to_loop.simps body_read_def
  BytesIO_read_eq unread_def CustomBytesIO_append_bytes MultipartEncoder_write_def
  MultipartEncoder_write_boundary_def MultipartEncoder_write_closing_boundary_def
  BytesIO_tell_def BytesIO_seek_end_def BytesIO_seek_set_def BytesIO_write_bytes_def
  MultipartEncoder_dunder_len_def MultipartEncoder_calculate_length_eq computed_length_def
  CRLF_def Let_def

text \<open>
  Claim C3. The constructor does not succeed: for the field \<^verbatim>\<open>("a", b"1")\<close> and the
  boundary \<^verbatim>\<open>X\<close> it raises \<^verbatim>\<open>TypeError\<close>, and for every input it either fails
  while assigning the attributes or raises \<^verbatim>\<open>TypeError\<close> in its last statement,
  \<^verbatim>\<open>self._write_boundary()\<close>, which hands the tuple \<^verbatim>\<open>_encoded_boundary\<close> to
  \<^verbatim>\<open>BytesIO.write\<close>. No buffer holding the delimiter line is left behind.
\<close>

theorem constructor_raises_TypeError:
  "MultipartEncoder_init render_headers [] (Sequence [(str_of ''a'', Bare (DataBytes ''1''))])
     (Some (str_of ''X'')) Utf8 32768 = Inl TypeError_bytes_like_required
   \<and> MultipartEncoder_init render chosen flds bnd e n =
       (case MultipartEncoder_init_attributes render chosen flds bnd e n of
          Inl err \<Rightarrow> Inl err
        | Inr s \<Rightarrow> Inl TypeError_bytes_like_required)"
  by (simp add: MultipartEncoder_init_eq run_simps)

text \<open>
  Claim C1. Constructing an encoder for the field \<^verbatim>\<open>("a", b"1")\<close> with the boundary
  \<^verbatim>\<open>X\<close>, taking its length and reading its body raises \<^verbatim>\<open>TypeError\<close> in the
  constructor: there is neither a computed length nor a stream to compare.
\<close>

theorem declared_length_and_body_raises:
  "declared_length_and_body render_headers []
     (Sequence [(str_of ''a'', Bare (DataBytes ''1''))]) (Some (str_of ''X'')) Utf8
   = Some (Inl TypeError_bytes_like_required)"
  by (simp add: declared_length_and_body_def MultipartEncoder_init_eq run_simps)

text \<open>
  Claim C2. Reading byte by byte and reading all at once both raise \<^verbatim>\<open>TypeError\<close> in
  the constructor, for the same field and boundary: neither yields a byte sequence.
\<close>

theorem encode_in_chunks_raises:
  "encode_in_chunks render_headers [] (Sequence [(str_of ''a'', Bare (DataBytes ''1''))])
     (Some (str_of ''X'')) Utf8 1 = Some (Inl TypeError_bytes_like_required)
   \<and> encode_in_chunks render_headers [] (Sequence [(str_of ''a'', Bare (DataBytes ''1''))])
     (Some (str_of ''X'')) Utf8 (- 1) = Some (Inl TypeError_bytes_like_required)"
  by (simp add: encode_in_chunks_def MultipartEncoder_init_eq run_simps)

text \<open>
  Claim C4. Constructing an encoder whose chunk size is 8 for the field
  \<^verbatim>\<open>("a", b"1")\<close> and iterating over it raises \<^verbatim>\<open>TypeError\<close> in the
  constructor: the iteration yields no chunk.
\<close>

theorem encode_by_iteration_raises:
  "encode_by_iteration render_headers [] (Sequence [(str_of ''a'', Bare (DataBytes ''1''))])
     (Some (str_of ''X'')) Utf8 8 = Some (Inl TypeError_bytes_like_required)"
  by (simp add: encode_by_iteration_def MultipartEncoder_init_eq run_simps)

text \<open>
  Claim C6. For the two fields \<^verbatim>\<open>a\<close> and \<^verbatim>\<open>b\<close> of the spec's scenario, given as a
  sequence or as a mapping, constructing the encoder and reading the whole body raises
  \<^verbatim>\<open>TypeError\<close> in the constructor: no byte stream comes out, in any order.
\<close>

theorem two_fields_raise:
  "encode_in_chunks render_headers []
     (Sequence [(str_of ''a'', Bare (DataBytes ''1'')),
                (str_of ''b'', Tuple3 (str_of ''f.txt'') (DataBytes ''hello'')
                                 (str_of ''text/plain''))])
     (Some (str_of ''X'')) Utf8 (- 1) = Some (Inl TypeError_bytes_like_required)
   \<and> encode_in_chunks render_headers []
     (Mapping [(str_of ''a'', Bare (DataBytes ''1'')),
               (str_of ''b'', Tuple3 (str_of ''f.txt'') (DataBytes ''hello'')
                                (str_of ''text/plain''))])
     (Some (str_of ''X'')) Utf8 (- 1) = Some (Inl TypeError_bytes_like_required)"
  by (simp add: encode_in_chunks_def MultipartEncoder_init_eq run_simps)

text \<open>
  Claim C10. The write of the boundary that is to leave the trailing CRLF raises
  \<^verbatim>\<open>TypeError\<close> on the attributes the constructor assigns, here for no fields and the
  boundary \<^verbatim>\<open>X\<close>; so the constructor raises, and reading five bytes at a time yields no
  stream, none that ends in \<^verbatim>\<open>--X--\r\n\<close> either.
\<close>

theorem boundary_write_raises:
  "\<not> isl (MultipartEncoder_init_attributes render_headers [] (Sequence [])
            (Some (str_of ''X'')) Utf8 32768)
   \<and> MultipartEncoder_write_boundary
        (projr (MultipartEncoder_init_attributes render_headers [] (Sequence [])
                  (Some (str_of ''X'')) Utf8 32768))
       = Inl TypeError_bytes_like_required
   \<and> encode_in_chunks render_headers [] (Sequence []) (Some (str_of ''X'')) Utf8 5
       = Some (Inl TypeError_bytes_like_required)"
  by (simp add: encode_in_chunks_def MultipartEncoder_init_eq run_simps
      CustomBytesIO_append_tuple)

subsection \<open>An unbounded load\<close>

text \<open>
  The lemmas of this subsection are about encoders whose \<^verbatim>\<open>_encoded_boundary\<close> is a
  \<^verbatim>\<open>bytes\<close> object \<open>D\<close>. With no bound on the amount, the load loop writes what the
  current part has left, then for each part exhausted \<^verbatim>\<open>\r\n\<close> and \<open>D\<close>, and closes
  the stream after the last part.
\<close>

lemma bytes_left_eq:
  assumes "part_ok p"
  shows "Part_bytes_left_to_write p = Inr (part_rest p \<noteq> [])"
proof -
  let ?n = "int (length (body_content (body p))) - int (body_pos (body p))"
  from assms have ok: "body_ok (body p)" and n: "0 \<le> ?n" by (simp_all add: part_ok_def)
  have u: "body_unread (body p) \<noteq> [] \<longleftrightarrow> 0 < ?n"
    by (auto simp add: body_unread_def)
  have h: "headers p \<noteq> [] \<longleftrightarrow> 0 < int (length (headers p))" by simp
  have "0 < (if headers_unread p then 0 + int (length (headers p)) else 0) + ?n
          \<longleftrightarrow> part_rest p \<noteq> []"
    unfolding part_rest_def using n u h by (cases "headers_unread p") auto
  then show ?thesis
    by (simp add: Part_bytes_left_to_write_def total_len_body [OF ok] Let_def)
qed

lemma write_to_unbounded:
  assumes "part_ok p"
  shows "Part_write_to p buf (- 1) =
     Some (Inr (p\<lparr>headers_unread := False,
                   body := body_advance (body p) (length (body_unread (body p)))\<rparr>,
                buf\<lparr>content := content buf @ part_rest p\<rparr>,
                int (length (part_rest p))))"
proof -
  from assms have ok: "body_ok (body p)" by (simp add: part_ok_def)
  note L = Part_write_to_loop_eq [OF ok]
  show ?thesis
  proof (cases "headers_unread p")
    case True
    then show ?thesis
      by (simp add: Part_write_to_def CustomBytesIO_append_bytes L Let_def part_rest_def)
  next
    case False
    then have p: "p\<lparr>headers_unread := False\<rparr> = p" by simp
    from False show ?thesis
      by (simp add: Part_write_to_def L Let_def p part_rest_def)
  qed
qed

lemma written_part:
  assumes "part_ok p"
  defines "p' \<equiv> p\<lparr>headers_unread := False,
                   body := body_advance (body p) (length (body_unread (body p)))\<rparr>"
  shows "part_ok p'" and "part_rest p' = []" and "len p' = len p"
  using assms body_ok_advance [of "body p" "length (body_unread (body p))"]
  by (auto simp add: part_ok_def part_rest_def p'_def body_unread_def)

lemma write_closing_boundary_eq:
  "MultipartEncoder_write_closing_boundary s =
     (s\<lparr>buffer := (buffer s)\<lparr>content := close_stream (content (buffer s))\<rparr>\<rparr>, 2)"
  by (auto simp add: MultipartEncoder_write_closing_boundary_def BytesIO_tell_def
      BytesIO_seek_end_def BytesIO_seek_set_def BytesIO_write_bytes_def close_stream_def
      CRLF_def Let_def nat_diff_distrib)


lemma load_loop_exhausted:
  assumes "encoded_boundary s = Bytes D" and "i < length (parts s)" and "iter_parts s = Suc i"
    and "part_rest (parts s ! i) = []" and "\<forall>p\<in>set (drop i (parts s)). part_ok p"
  shows "\<exists>s'. MultipartEncoder_load_loop s (Some i) (- 1) = Some (Inr s') \<and> finished s'
           \<and> buffer s' = (buffer s)\<lparr>content := close_stream (content (buffer s) @ CRLF @ D
                 @ concat (map (\<lambda>p. part_rest p @ CRLF @ D) (drop (Suc i) (parts s))))\<rparr>
           \<and> map len (parts s') = map len (parts s) \<and> boundary s' = boundary s"
  using assms
proof (induction "length (parts s) - i" arbitrary: s i)
  case 0
  then show ?case by simp
next
  case (Suc n)
  from Suc.prems have ok_i: "part_ok (parts s ! i)"
    by (metis Cons_nth_drop_Suc list.set_intros(1))
  have left: "Part_bytes_left_to_write (parts s ! i) = Inr False"
    using bytes_left_eq [OF ok_i] Suc.prems(4) by simp
  show ?case
  proof (cases "Suc i < length (parts s)")
    case False
    with Suc.prems have last: "drop (Suc i) (parts s) = []" by simp
    show ?thesis
      apply (subst MultipartEncoder_load_loop.simps)
      using False Suc.prems(1,2,3) left last
      apply (simp add: MultipartEncoder_load_close_part_def MultipartEncoder_write_def
          MultipartEncoder_write_boundary_def CustomBytesIO_append_bytes
          MultipartEncoder_next_part_def write_closing_boundary_eq)
      done
  next
    case True
    let ?q = "parts s ! Suc i"
    from Suc.prems True have ok_q: "part_ok ?q"
      by (metis Cons_nth_drop_Suc Suc_lessD in_set_dropD list.set_intros(1) set_drop_subset_set_drop subsetD le_SucI order_refl)
    let ?q' = "?q\<lparr>headers_unread := False,
                   body := body_advance (body ?q) (length (body_unread (body ?q)))\<rparr>"
    let ?s1 = "s\<lparr>current_part := Some (Suc i), iter_parts := Suc (Suc i),
                 parts := (parts s)[Suc i := ?q'],
                 buffer := (buffer s)\<lparr>content := content (buffer s) @ CRLF @ D @ part_rest ?q\<rparr>\<rparr>"
    have step: "MultipartEncoder_load_loop s (Some i) (- 1)
                  = MultipartEncoder_load_loop ?s1 (Some (Suc i)) (- 1)"
      apply (subst MultipartEncoder_load_loop.simps)
      using True Suc.prems(1,2,3) left
      apply (simp add: MultipartEncoder_load_close_part_def MultipartEncoder_write_def
          MultipartEncoder_write_boundary_def CustomBytesIO_append_bytes
          MultipartEncoder_next_part_def write_to_unbounded [OF ok_q])
      done
    have d: "drop (Suc i) ((parts s)[Suc i := ?q']) = ?q' # drop (Suc (Suc i)) (parts s)"
      using True by (simp add: Cons_nth_drop_Suc [symmetric] drop_update_swap)
    have sub: "set (drop (Suc (Suc i)) (parts s)) \<subseteq> set (drop i (parts s))"
      by (rule set_drop_subset_set_drop) simp
    have "\<forall>p\<in>set (drop (Suc i) (parts ?s1)). part_ok p"
      using Suc.prems(5) written_part(1) [OF ok_q] d sub by auto
    moreover have "n = length (parts ?s1) - Suc i" using Suc(2) by simp
    moreover have "part_rest (parts ?s1 ! Suc i) = []"
      using True written_part(2) [OF ok_q] by simp
    ultimately obtain s' where
      r: "MultipartEncoder_load_loop ?s1 (Some (Suc i)) (- 1) = Some (Inr s')" "finished s'"
        "buffer s' = (buffer ?s1)\<lparr>content := close_stream (content (buffer ?s1) @ CRLF @ D
                 @ concat (map (\<lambda>p. part_rest p @ CRLF @ D) (drop (Suc (Suc i)) (parts ?s1))))\<rparr>"
        "map len (parts s') = map len (parts ?s1)" "boundary s' = boundary ?s1"
      using Suc(1) [of ?s1 "Suc i"] Suc.prems(1) True by auto
    have l: "map len (parts ?s1) = map len (parts s)"
      using True written_part(3) [OF ok_q] by (simp add: map_update list_update_same_conv)
    have c: "drop (Suc i) (parts s) = ?q # drop (Suc (Suc i)) (parts s)"
      using True by (simp add: Cons_nth_drop_Suc)
    show ?thesis
      using step r l c by simp
  qed
qed


lemma load_loop_unbounded:
  assumes "encoded_boundary s = Bytes D" and "i < length (parts s)" and "iter_parts s = Suc i"
    and "\<forall>p\<in>set (drop i (parts s)). part_ok p"
  shows "\<exists>s'. MultipartEncoder_load_loop s (Some i) (- 1) = Some (Inr s') \<and> finished s'
           \<and> buffer s' = (buffer s)\<lparr>content := close_stream (content (buffer s)
                 @ concat (map (\<lambda>p. part_rest p @ CRLF @ D) (drop i (parts s))))\<rparr>
           \<and> map len (parts s') = map len (parts s) \<and> boundary s' = boundary s"
proof -
  let ?q = "parts s ! i"
  have c: "drop i (parts s) = ?q # drop (Suc i) (parts s)"
    using assms(2) by (simp add: Cons_nth_drop_Suc)
  with assms(4) have ok_q: "part_ok ?q" by simp
  show ?thesis
  proof (cases "part_rest ?q = []")
    case True
    from load_loop_exhausted [OF assms(1,2,3) True assms(4)] c True show ?thesis by simp
  next
    case False
    let ?q' = "?q\<lparr>headers_unread := False,
                   body := body_advance (body ?q) (length (body_unread (body ?q)))\<rparr>"
    let ?s1 = "s\<lparr>parts := (parts s)[i := ?q'],
                 buffer := (buffer s)\<lparr>content := content (buffer s) @ part_rest ?q\<rparr>\<rparr>"
    have step: "MultipartEncoder_load_loop s (Some i) (- 1)
                  = MultipartEncoder_load_loop ?s1 (Some i) (- 1)"
      apply (subst MultipartEncoder_load_loop.simps)
      using False assms(1,2,3) bytes_left_eq [OF ok_q]
      apply (simp add: MultipartEncoder_load_close_part_def write_to_unbounded [OF ok_q])
      done
    have d: "drop i ((parts s)[i := ?q']) = ?q' # drop (Suc i) (parts s)"
      using assms(2) by (simp add: Cons_nth_drop_Suc [symmetric] drop_update_swap)
    have sub: "set (drop (Suc i) (parts s)) \<subseteq> set (drop i (parts s))"
      by (rule set_drop_subset_set_drop) simp
    have ok': "\<forall>p\<in>set (drop i (parts ?s1)). part_ok p"
      using assms(4) written_part(1) [OF ok_q] d sub by auto
    have rest': "part_rest (parts ?s1 ! i) = []"
      using assms(2) written_part(2) [OF ok_q] by simp
    have l: "map len (parts ?s1) = map len (parts s)"
      using assms(2) written_part(3) [OF ok_q] by (simp add: map_update list_update_same_conv)
    from load_loop_exhausted [of ?s1 D i, OF _ _ _ rest' ok'] assms(1,2,3)
    obtain s' where
      r: "MultipartEncoder_load_loop ?s1 (Some i) (- 1) = Some (Inr s')" "finished s'"
        "buffer s' = (buffer ?s1)\<lparr>content := close_stream (content (buffer ?s1) @ CRLF @ D
                 @ concat (map (\<lambda>p. part_rest p @ CRLF @ D) (drop (Suc i) (parts ?s1))))\<rparr>"
        "map len (parts s') = map len (parts ?s1)" "boundary s' = boundary ?s1"
      by auto
    show ?thesis
      using step r l c by simp
  qed
qed

text \<open>The same from the start: no current part yet, the iterator at the first part.\<close>

lemma load_unbounded:
  assumes "encoded_boundary s = Bytes D" and "current_part s = None" and "iter_parts s = 0"
    and "pos (buffer s) = 0" and "\<forall>p\<in>set (parts s). part_ok p"
  shows "\<exists>s'. MultipartEncoder_load s (- 1) = Some (Inr s') \<and> finished s'
           \<and> buffer s' = \<lparr>content = close_stream (content (buffer s)
                 @ concat (map (\<lambda>p. part_rest p @ CRLF @ D) (parts s))), pos = 0\<rparr>
           \<and> map len (parts s') = map len (parts s) \<and> boundary s' = boundary s"
proof -
  have t: "CustomBytesIO_smart_truncate (buffer s) = buffer s"
    using assms(4) by (cases "buffer s") (simp add: CustomBytesIO_smart_truncate_eq unread_def)
  have b: "(buffer s)\<lparr>content := xs\<rparr> = \<lparr>content = xs, pos = 0\<rparr>" for xs
    using assms(4) by (cases "buffer s") simp
  show ?thesis
  proof (cases "parts s")
    case Nil
    then show ?thesis
      using assms(2,3)
      apply (simp add: MultipartEncoder_load_def t MultipartEncoder_next_part_def)
      apply (subst MultipartEncoder_load_loop.simps)
      apply (simp add: MultipartEncoder_load_close_part_def write_closing_boundary_eq b)
      done
  next
    case (Cons p ps)
    let ?s1 = "s\<lparr>current_part := Some 0, iter_parts := Suc 0\<rparr>"
    have "MultipartEncoder_load s (- 1) = MultipartEncoder_load_loop ?s1 (Some 0) (- 1)"
      using assms(2,3) Cons by (simp add: MultipartEncoder_load_def t MultipartEncoder_next_part_def)
    moreover from load_loop_unbounded [of ?s1 D 0] assms(1,5) Cons
    obtain s' where "MultipartEncoder_load_loop ?s1 (Some 0) (- 1) = Some (Inr s')" "finished s'"
      "buffer s' = (buffer ?s1)\<lparr>content := close_stream (content (buffer ?s1)
                 @ concat (map (\<lambda>p. part_rest p @ CRLF @ D) (drop 0 (parts ?s1))))\<rparr>"
      "map len (parts s') = map len (parts ?s1)" "boundary s' = boundary ?s1"
      by auto
    ultimately show ?thesis by (simp add: b)
  qed
qed

lemma computed_length_cong:
  "map len (parts s') = map len (parts s) \<Longrightarrow> boundary s' = boundary s \<Longrightarrow>
   computed_length s' = computed_length s"
proof -
  assume m: "map len (parts s') = map len (parts s)" and b: "boundary s' = boundary s"
  from m have "length (map len (parts s')) = length (map len (parts s))" by simp
  then have "length (parts s') = length (parts s)" by simp
  with m b show ?thesis by (simp add: computed_length_def)
qed

lemma read_unbounded:
  assumes "\<not> finished s" and "encoded_boundary s = Bytes D" and "current_part s = None"
    and "iter_parts s = 0" and "pos (buffer s) = 0" and "\<forall>p\<in>set (parts s). part_ok p"
  shows "\<exists>s'. MultipartEncoder_read s (- 1)
             = Some (Inr (close_stream (content (buffer s)
                 @ concat (map (\<lambda>p. part_rest p @ CRLF @ D) (parts s))), s'))
           \<and> finished s' \<and> unread (buffer s') = []
           \<and> computed_length s' = computed_length s"
proof -
  from load_unbounded [OF assms(2-6)] obtain s1 where
    l: "MultipartEncoder_load s (- 1) = Some (Inr s1)" "finished s1"
      "buffer s1 = \<lparr>content = close_stream (content (buffer s)
                 @ concat (map (\<lambda>p. part_rest p @ CRLF @ D) (parts s))), pos = 0\<rparr>"
      "map len (parts s1) = map len (parts s)" "boundary s1 = boundary s"
    by blast
  from l(4,5) have "computed_length s1 = computed_length s" by (rule computed_length_cong)
  with assms(1) l(1,2,3) show ?thesis
    by (simp add: MultipartEncoder_read_def BytesIO_read_eq unread_def Let_def computed_length_def)
qed


lemma close_stream_CRLF: "close_stream (xs @ CRLF) = xs @ ''--'' @ CRLF"
  by (simp add: close_stream_def CRLF_def)

lemma delimiters_before:
  "(E @ CRLF) @ concat (map (\<lambda>r. r @ CRLF @ E @ CRLF) rs)
     = concat (map (\<lambda>r. E @ CRLF @ r @ CRLF) rs) @ E @ CRLF"
  by (induction rs) simp_all

lemma close_stream_body:
  "close_stream ((E @ CRLF) @ concat (map (\<lambda>p. part_rest p @ CRLF @ E @ CRLF) ps))
     = multipart_body E (map part_rest ps)"
proof -
  have "concat (map (\<lambda>p. part_rest p @ CRLF @ E @ CRLF) ps)
          = concat (map (\<lambda>r. r @ CRLF @ E @ CRLF) (map part_rest ps))"
    by (simp add: comp_def)
  then have "(E @ CRLF) @ concat (map (\<lambda>p. part_rest p @ CRLF @ E @ CRLF) ps)
          = (concat (map (\<lambda>r. E @ CRLF @ r @ CRLF) (map part_rest ps)) @ E) @ CRLF"
    using delimiters_before [of E "map part_rest ps"] by simp
  then show ?thesis
    by (simp only: close_stream_CRLF multipart_body_def) simp
qed

lemma length_multipart_body:
  "int (length (multipart_body E rs))
     = sum_list (map (int \<circ> length) rs) + (int (length E) + 4) * (int (length rs) + 1)"
  by (induction rs) (simp_all add: multipart_body_def CRLF_def algebra_simps)

lemma str_encode_append:
  "str_encode e (xs @ ys) =
     (case str_encode e xs of
        Inl err \<Rightarrow> Inl err
      | Inr bs \<Rightarrow> (case str_encode e ys of Inl err \<Rightarrow> Inl err | Inr cs \<Rightarrow> Inr (bs @ cs)))"
  by (induction xs) (auto split: sum.splits)

lemma char_of_CR_LF: "char_of (13 :: nat) = CHR 0x0D" "char_of (10 :: nat) = CHR 0x0A"
  by code_simp+

lemma str_encode_CRLF: "str_encode e [0x0D, 0x0A] = Inr CRLF"
  by (cases e) (simp_all add: encode_code_point_def CRLF_def char_of_CR_LF)

lemma Part_from_field_fresh:
  assumes "Part_from_field render fld e = Inr p" and "truthful (data fld)"
    and "positioned (data fld)"
  shows "part_ok p \<and> len p = int (length (part_rest p))"
proof -
  from assms(1) obtain hdrs bdy where h: "encode_with (AStr (render fld)) e = Inr hdrs"
    and c: "coerce_data (data fld) e = Inr bdy" and i: "Part_init hdrs bdy = Inr p"
    by (auto simp add: Part_from_field_def split: sum.splits)
  from coerce_data_body_ok [OF c assms(2)] have ok: "body_ok bdy" .
  have ps: "body_pos bdy \<le> length (body_content bdy)"
    using c assms(3)
    by (cases "data fld")
       (auto simp add: positioned_def body_pos_def body_content_def CustomBytesIO_init_def
          BytesIO_init_def FileWrapper_init_def Let_def split: sum.splits)
  from i ok ps show ?thesis
    by (auto simp add: Part_init_def total_len_body part_ok_def part_rest_def body_unread_def)
qed

lemma prepare_parts_fresh:
  assumes "prepare_parts render e kvs = Inr ps"
    and "\<forall>kv\<in>set kvs. \<forall>fld. iter_field kv = Inr fld \<longrightarrow> truthful (data fld) \<and> positioned (data fld)"
  shows "\<forall>p\<in>set ps. part_ok p \<and> len p = int (length (part_rest p))"
  using assms
proof (induction kvs arbitrary: ps)
  case Nil
  then show ?case by simp
next
  case (Cons kv kvs)
  from Cons.prems(1) obtain fld p ps' where f: "iter_field kv = Inr fld"
    and p: "Part_from_field render fld e = Inr p" and r: "prepare_parts render e kvs = Inr ps'"
    and ps: "ps = p # ps'"
    by (auto split: sum.splits)
  from Cons.prems(2) f have "truthful (data fld)" "positioned (data fld)" by auto
  from Part_from_field_fresh [OF p this] Cons.IH [OF r] Cons.prems(2) ps show ?case by simp
qed

lemma prepare_parts_in_order:
  "prepare_parts render e kvs = Inr ps \<Longrightarrow>
   list_all2 (\<lambda>kv p. \<exists>fld. iter_field kv = Inr fld \<and> Part_from_field render fld e = Inr p) kvs ps"
  by (induction kvs arbitrary: ps) (auto split: sum.splits)

lemma sum_len_fresh:
  "\<forall>p\<in>set ps. part_ok p \<and> len p = int (length (part_rest p)) \<Longrightarrow>
   sum_list (map len ps) = sum_list (map (int \<circ> length) (map part_rest ps))"
  by (induction ps) simp_all

subsection \<open>The load loop apart from the constructor\<close>

text \<open>
  The lemmas of this subsection run the load loop on \<open>with_boundary_bytes\<close> of the
  attributes that the constructor assigns, an encoder that no call of the constructor
  returns. They tell what stands between the remaining statements of the source and
  the claims, once the delimiter is a \<^verbatim>\<open>bytes\<close> object.

  For fields whose data are truthful and positioned, one unbounded read returns the body
  in the spec's order, the parts in the order of the fields, and leaves the encoder
  finished with nothing unread. The length of the body is the computed length plus, for
  each of the \<open>N + 1\<close> delimiters, the number of bytes by which the encoding of the
  boundary exceeds its number of code points.
\<close>

lemma read_all_with_boundary_bytes:
  assumes a: "MultipartEncoder_init_attributes render chosen flds bnd e n = Inr a"
    and d: "\<forall>kv\<in>set (to_list flds). \<forall>fld. iter_field kv = Inr fld
              \<longrightarrow> truthful (data fld) \<and> positioned (data fld)"
  shows "\<exists>E s'. str_encode e (boundary a) = Inr E
           \<and> MultipartEncoder_read (with_boundary_bytes a) (- 1)
               = Some (Inr (multipart_body E (map part_rest (parts a)), s'))
           \<and> finished s' \<and> unread (buffer s') = []
           \<and> int (length (multipart_body E (map part_rest (parts a))))
               = computed_length a
                 + (int (length E) - int (length (boundary a))) * (int (length (parts a)) + 1)
           \<and> list_all2 (\<lambda>kv p. \<exists>fld. iter_field kv = Inr fld
                                   \<and> Part_from_field render fld e = Inr p)
                 (to_list flds) (parts a)"
proof -
  from a obtain D where D: "str_encode e (boundary a @ [0x0D, 0x0A]) = Inr D"
    and eb: "encoded_boundary a = Tuple [Bytes D]" and buf: "buffer a = \<lparr>content = [], pos = 0\<rparr>"
    and st: "\<not> finished a" "current_part a = None" "iter_parts a = 0"
    and ps: "prepare_parts render e (to_list flds) = Inr (parts a)"
    by (auto simp add: MultipartEncoder_init_attributes_def CustomBytesIO_init_def BytesIO_init_def
        Let_def split: sum.splits)
  from D obtain E where E: "str_encode e (boundary a) = Inr E" and DE: "D = E @ CRLF"
    by (auto simp add: str_encode_append str_encode_CRLF simp del: str_encode.simps
        split: sum.splits)
  let ?s = "with_boundary_bytes a"
  have s: "?s = a\<lparr>encoded_boundary := Bytes D, buffer := \<lparr>content = D, pos = 0\<rparr>\<rparr>"
    using eb buf by (simp add: with_boundary_bytes_def)
  from prepare_parts_fresh [OF ps d] have fresh:
    "\<forall>p\<in>set (parts a). part_ok p \<and> len p = int (length (part_rest p))" .
  from read_unbounded [of ?s D] st fresh s
  obtain s' where r: "MultipartEncoder_read ?s (- 1)
             = Some (Inr (close_stream (D
                 @ concat (map (\<lambda>p. part_rest p @ CRLF @ D) (parts a))), s'))"
    "finished s'" "unread (buffer s') = []"
    by auto
  have body: "close_stream (D @ concat (map (\<lambda>p. part_rest p @ CRLF @ D) (parts a)))
                = multipart_body E (map part_rest (parts a))"
    unfolding DE by (rule close_stream_body)
  have len: "int (length (multipart_body E (map part_rest (parts a))))
               = computed_length a
                 + (int (length E) - int (length (boundary a))) * (int (length (parts a)) + 1)"
    by (simp add: length_multipart_body computed_length_def sum_len_fresh [OF fresh] algebra_simps)
  from E r body len prepare_parts_in_order [OF ps] show ?thesis by auto
qed

text \<open>Iteration stops as soon as \<^verbatim>\<open>_finished\<close> is set, whatever the buffer still holds.\<close>

lemma finished_stops_iteration:
  assumes "finished s"
  shows "MultipartEncoder_next s = Some (Inl StopIteration)"
    and "MultipartEncoder_iter s yielded = Some (Inr (yielded, s))"
  using assms
  by (simp add: MultipartEncoder_next_def, subst MultipartEncoder_iter.simps) simp

text \<open>
  With the chunk size 8 and the field \<^verbatim>\<open>("a", b"1")\<close>, the seventh read loads the end
  of the body, sets \<^verbatim>\<open>_finished\<close> and returns eight bytes; the iteration ends there,
  and the last three bytes \<^verbatim>\<open>-\r\n\<close> of the body stay in the buffer.
\<close>

lemma iteration_drops_unread_bytes:
  "map_option (map_sum id (map_prod id (unread \<circ> buffer)))
     (MultipartEncoder_iter (with_boundary_bytes (projr
        (MultipartEncoder_init_attributes render_headers []
           (Sequence [(str_of ''a'', Bare (DataBytes ''1''))]) (Some (str_of ''X'')) Utf8 8))) [])
   = Some (Inr ([''--X'' @ CRLF @ ''Con'', ''tent-Dis'', ''position'', '': form-d'', ''ata; nam'',
                 ''e='' @ [CHR 0x22] @ ''a'' @ [CHR 0x22] @ CRLF @ [CHR 0x0D],
                 [CHR 0x0A] @ ''1'' @ CRLF @ ''--X-''],
                ''-'' @ CRLF))"
  by (simp add: run_simps) code_simp

text \<open>
  With no fields, a reader that has consumed the delimiter line before the loop writes the
  closing boundary gets \<^verbatim>\<open>--X\r\n--\r\n\<close>: the buffer is compacted to nothing, the
  step back by two bytes stops at its start, and \<^verbatim>\<open>--\r\n\<close> is written there. Reading
  all at once gives \<^verbatim>\<open>--X--\r\n\<close>.
\<close>

lemma no_fields_in_chunks:
  "map_option (map_sum id fst) (read_until_empty (with_boundary_bytes (projr
      (MultipartEncoder_init_attributes render_headers [] (Sequence []) (Some (str_of ''X''))
         Utf8 32768))) 1 [])
     = Some (Inr (''--X'' @ CRLF @ ''--'' @ CRLF))
   \<and> map_option (map_sum id fst) (read_until_empty (with_boundary_bytes (projr
      (MultipartEncoder_init_attributes render_headers [] (Sequence []) (Some (str_of ''X''))
         Utf8 32768))) 5 [])
     = Some (Inr (''--X'' @ CRLF @ ''--'' @ CRLF))
   \<and> map_option (map_sum id fst) (read_until_empty (with_boundary_bytes (projr
      (MultipartEncoder_init_attributes render_headers [] (Sequence []) (Some (str_of ''X''))
         Utf8 32768))) (- 1) [])
     = Some (Inr (''--X--'' @ CRLF))"
  by (simp add: run_simps) code_simp

text \<open>
  With the two fields of the spec's scenario, reading all at once gives the delimiter, the
  headers and the body of \<^verbatim>\<open>a\<close>, the delimiter, the headers and the body of
  \<^verbatim>\<open>b\<close>, and the closing delimiter; its 159 bytes are the computed length.
\<close>

lemma two_fields_in_order:
  "map_option (map_sum id fst)
     (read_until_empty (with_boundary_bytes (projr
        (MultipartEncoder_init_attributes render_headers []
           (Sequence [(str_of ''a'', Bare (DataBytes ''1'')),
                      (str_of ''b'', Tuple3 (str_of ''f.txt'') (DataBytes ''hello'')
                                       (str_of ''text/plain''))])
           (Some (str_of ''X'')) Utf8 32768))) (- 1) [])
   = Some (Inr (''--X'' @ CRLF
        @ ''Content-Disposition: form-data; name='' @ [CHR 0x22] @ ''a'' @ [CHR 0x22] @ CRLF @ CRLF
        @ ''1'' @ CRLF
        @ ''--X'' @ CRLF
        @ ''Content-Disposition: form-data; name='' @ [CHR 0x22] @ ''b'' @ [CHR 0x22]
        @ ''; filename='' @ [CHR 0x22] @ ''f.txt'' @ [CHR 0x22] @ CRLF
        @ ''Content-Type: text/plain'' @ CRLF @ CRLF
        @ ''hello'' @ CRLF
        @ ''--X--'' @ CRLF))
   \<and> map_sum id fst (MultipartEncoder_dunder_len (with_boundary_bytes (projr
        (MultipartEncoder_init_attributes render_headers []
           (Sequence [(str_of ''a'', Bare (DataBytes ''1'')),
                      (str_of ''b'', Tuple3 (str_of ''f.txt'') (DataBytes ''hello'')
                                       (str_of ''text/plain''))])
           (Some (str_of ''X'')) Utf8 32768))))
     = Inr 159"
  by (simp add: run_simps) code_simp

text \<open>
  The computed length counts the code points of the boundary, the stream holds its
  encoding: for the boundary of the one code point U+00E9 in UTF-8 and no fields the
  computed length is 7 and the body, the closing delimiter line alone, has 8 bytes.
\<close>

lemma length_counts_code_points:
  "map_sum id fst (MultipartEncoder_dunder_len (with_boundary_bytes (projr
      (MultipartEncoder_init_attributes render_headers [] (Sequence []) (Some [0xE9])
         Utf8 32768)))) = Inr 7
   \<and> map_option (map_sum id (length \<circ> fst)) (read_until_empty (with_boundary_bytes (projr
      (MultipartEncoder_init_attributes render_headers [] (Sequence []) (Some [0xE9])
         Utf8 32768))) (- 1) [])
     = Some (Inr 8)"
  by (simp add: run_simps)

end
